theory Spec2Isabelle
  imports Main "HOL-Library.AList" "HOL-Library.Char_ord" "HOL-Library.List_Lexorder"
begin

section \<open>Strings, paths and errors\<close>

text \<open>
  JavaScript strings are modelled as \<open>string\<close> (ASCII). A thrown \<open>Error\<close> is a value
  \<open>Error msg\<close>; a function that may throw returns \<open>error + 'a\<close>.
  A filesystem path is the list of its segments; \<open>join\<close> of the \<open>path\<close> module
  concatenates and normalises (\<open>.\<close> and empty segments dropped, \<open>..\<close> resolved).
\<close>

datatype error = Error string

type_synonym path = "string list"

fun startsWith :: "'a list \<Rightarrow> 'a list \<Rightarrow> bool" where
  "startsWith s [] = True"
| "startsWith [] (p # ps) = False"
| "startsWith (c # cs) (p # ps) = (c = p \<and> startsWith cs ps)"

fun str_includes :: "string \<Rightarrow> string \<Rightarrow> bool" where
  "str_includes [] sub = (sub = [])"
| "str_includes (c # cs) sub = (startsWith (c # cs) sub \<or> str_includes cs sub)"

definition endsWith :: "string \<Rightarrow> string \<Rightarrow> bool" where
  "endsWith s suf = startsWith (rev s) (rev suf)"

definition lowerChar :: "char \<Rightarrow> char" where
  "lowerChar c = (if CHR ''A'' \<le> c \<and> c \<le> CHR ''Z'' then char_of (of_char c + (32::nat)) else c)"

definition toLowerCase :: "string \<Rightarrow> string" where
  "toLowerCase s = map lowerChar s"

text \<open>Splitting a string at a separator character (\<open>s.split(sep)\<close>).\<close>

fun splitOn :: "char \<Rightarrow> string \<Rightarrow> string list" where
  "splitOn sep [] = [[]]"
| "splitOn sep (c # cs) =
     (if c = sep then [] # splitOn sep cs
      else (case splitOn sep cs of [] \<Rightarrow> [[c]] | w # ws \<Rightarrow> (c # w) # ws))"

fun normalize :: "path \<Rightarrow> path \<Rightarrow> path" where
  "normalize acc [] = rev acc"
| "normalize acc (s # ss) =
     (if s = [] \<or> s = ''.'' then normalize acc ss
      else if s = ''..'' then normalize (tl acc) ss
      else normalize (s # acc) ss)"

text \<open>\<open>join(base, rel)\<close> for an absolute, normalised \<open>base\<close> and a relative path string.\<close>

definition joinRel :: "path \<Rightarrow> string \<Rightarrow> path" where
  "joinRel base rel = normalize (rev base) (splitOn CHR ''/'' rel)"

definition dirname :: "path \<Rightarrow> path" where
  "dirname p = butlast p"

definition basename :: "path \<Rightarrow> string" where
  "basename p = (if p = [] then [] else last p)"

section \<open>The filesystem\<close>

text \<open>
  The local filesystem is a tree. A directory keeps its entries in \<open>readdirSync\<close> order.
  A symbolic link carries what it resolves to: a regular file with its content, or
  nothing (dangling); links to directories are not represented. \<open>lookup\<close> is
  \<open>lstat\<close>: it does not follow links.
\<close>

datatype target = ToFile string | Dangling

datatype node = File string | Dir "(string \<times> node) list" | Symlink target

fun lookup :: "node \<Rightarrow> path \<Rightarrow> node option" where
  "lookup n [] = Some n"
| "lookup (Dir es) (s # ss) = (case map_of es s of None \<Rightarrow> None | Some c \<Rightarrow> lookup c ss)"
| "lookup (File c) (s # ss) = None"
| "lookup (Symlink t) (s # ss) = None"

definition existsSync :: "node \<Rightarrow> path \<Rightarrow> bool" where
  "existsSync fs p =
     (case lookup fs p of None \<Rightarrow> False | Some (Symlink Dangling) \<Rightarrow> False | Some _ \<Rightarrow> True)"

text \<open>\<open>statSync(p).isFile()\<close>: follows links, throws when nothing is there.\<close>

definition statIsFile :: "node \<Rightarrow> path \<Rightarrow> error + bool" where
  "statIsFile fs p =
     (case lookup fs p of
        None \<Rightarrow> Inl (Error ''ENOENT'')
      | Some (File c) \<Rightarrow> Inr True
      | Some (Dir es) \<Rightarrow> Inr False
      | Some (Symlink (ToFile c)) \<Rightarrow> Inr True
      | Some (Symlink Dangling) \<Rightarrow> Inl (Error ''ENOENT''))"

definition readFileSync :: "node \<Rightarrow> path \<Rightarrow> error + string" where
  "readFileSync fs p =
     (case lookup fs p of
        None \<Rightarrow> Inl (Error ''ENOENT'')
      | Some (File c) \<Rightarrow> Inr c
      | Some (Dir es) \<Rightarrow> Inl (Error ''EISDIR'')
      | Some (Symlink (ToFile c)) \<Rightarrow> Inr c
      | Some (Symlink Dangling) \<Rightarrow> Inl (Error ''ENOENT''))"

fun mkdirs :: "path \<Rightarrow> node" where
  "mkdirs [] = Dir []"
| "mkdirs (s # ss) = Dir [(s, mkdirs ss)]"

text \<open>\<open>mkdirSync(p, {recursive: true})\<close>.\<close>

fun mkdirSync :: "node \<Rightarrow> path \<Rightarrow> error + node" where
  "mkdirSync (Dir es) [] = Inr (Dir es)"
| "mkdirSync n [] = Inl (Error ''EEXIST'')"
| "mkdirSync (Dir es) (s # ss) =
     (case map_of es s of
        None \<Rightarrow> Inr (Dir (es @ [(s, mkdirs ss)]))
      | Some c \<Rightarrow> (case mkdirSync c ss of
                    Inl e \<Rightarrow> Inl e
                  | Inr c' \<Rightarrow> Inr (Dir (AList.update s c' es))))"
| "mkdirSync n (s # ss) = Inl (Error ''ENOTDIR'')"

text \<open>
  Putting a non-directory entry at a path whose parent directory exists; an entry
  already there is replaced unless it is a directory.
\<close>

fun place :: "node \<Rightarrow> path \<Rightarrow> node \<Rightarrow> error + node" where
  "place (Dir es) [] leaf = Inl (Error ''EISDIR'')"
| "place n [] leaf = Inr leaf"
| "place (Dir es) (s # ss) leaf =
     (case map_of es s of
        None \<Rightarrow> (if ss = [] then Inr (Dir (es @ [(s, leaf)])) else Inl (Error ''ENOENT''))
      | Some c \<Rightarrow> (case place c ss leaf of
                    Inl e \<Rightarrow> Inl e
                  | Inr c' \<Rightarrow> Inr (Dir (AList.update s c' es))))"
| "place n (s # ss) leaf = Inl (Error ''ENOTDIR'')"

text \<open>\<open>writeFileSync(p, data)\<close> writes through a symbolic link at \<open>p\<close>.\<close>

definition writeFileSync :: "node \<Rightarrow> path \<Rightarrow> string \<Rightarrow> error + node" where
  "writeFileSync fs p data =
     (case lookup fs p of
        Some (Symlink t) \<Rightarrow> place fs p (Symlink (ToFile data))
      | _ \<Rightarrow> place fs p (File data))"

text \<open>\<open>cpSync(src, dest, {force: true})\<close>: not recursive, links are copied as links.\<close>

definition cpSync :: "node \<Rightarrow> path \<Rightarrow> path \<Rightarrow> error + node" where
  "cpSync fs src dest =
     (case lookup fs src of
        None \<Rightarrow> Inl (Error ''ENOENT'')
      | Some (Dir es) \<Rightarrow> Inl (Error ''EISDIR'')
      | Some leaf \<Rightarrow> place fs dest leaf)"

text \<open>\<open>rmSync(p, {recursive: true, force: true})\<close>.\<close>

fun rmSync :: "node \<Rightarrow> path \<Rightarrow> node" where
  "rmSync n [] = n"
| "rmSync (Dir es) (s # ss) =
     (if ss = [] then Dir (AList.delete s es)
      else (case map_of es s of
              None \<Rightarrow> Dir es
            | Some c \<Rightarrow> Dir (AList.update s (rmSync c ss) es)))"
| "rmSync n (s # ss) = n"

section \<open>Configuration (config.ts)\<close>

record AgVaultConfig =
  repoUrl :: string
  includeGlobs :: "string list"
  excludeGlobs :: "string list"
  branch :: string

definition DEFAULT_INCLUDE :: "string list" where
  "DEFAULT_INCLUDE = [''**/*.md'', ''**/*.mdc'', ''.cursor/**'', ''.cursorrules'', ''docs/**'', ''*.md'']"

definition DEFAULT_EXCLUDE :: "string list" where
  "DEFAULT_EXCLUDE = [''node_modules/**'', ''.git/**'', ''dist/**'', ''build/**'', ''.agvault/**'']"

text \<open>
  What \<open>JSON.parse\<close> returned, as \<open>loadConfig\<close> reads it: \<open>JNull\<close> is the JSON value
  \<open>null\<close> (reading a property of it throws a \<open>TypeError\<close>); any other value is seen
  through its four properties, \<open>None\<close> for a property that is undefined or null.
\<close>

datatype json = JNull
  | JFields "string option" "string list option" "string list option" "string option"

text \<open>
  The environment of a run: the JSON parser of the runtime, the \<open>glob\<close> library,
  whether spawning the hosting CLI works, whether its repository creation exits with
  status 0, and the error with which \<open>git push\<close> fails (\<open>None\<close> when it succeeds).

  \<open>globSync e pattern cwd ignore fs\<close> is what
  \<open>glob(pattern, {cwd, nodir: true, ignore, dot: true})\<close> resolves to on the
  filesystem \<open>fs\<close>: a list of path strings, relative to \<open>cwd\<close>, in the order in which
  the library reports them. The library is not part of the repository, so nothing is
  assumed about which paths it reports or in which order.
\<close>

record env =
  jsonParse :: "string \<Rightarrow> error + json"
  globSync :: "string \<Rightarrow> path \<Rightarrow> string list \<Rightarrow> node \<Rightarrow> string list"
  ghAvailable :: bool
  ghCreateOk :: bool
  pushError :: "string option"

definition getConfigPath :: "path \<Rightarrow> path" where
  "getConfigPath cwd = cwd @ [''.agvault'', ''config.json'']"

definition invalidJson :: "string \<Rightarrow> error" where
  "invalidJson msg = Error (''Invalid JSON in .agvault/config.json: '' @ msg)"

definition orElse :: "'a option \<Rightarrow> 'a \<Rightarrow> 'a" where
  "orElse v d = (case v of None \<Rightarrow> d | Some x \<Rightarrow> x)"

definition loadConfig :: "env \<Rightarrow> node \<Rightarrow> path \<Rightarrow> error + AgVaultConfig option" where
  "loadConfig e fs cwd =
     (let p = getConfigPath cwd in
      if \<not> existsSync fs p then Inr None
      else (case readFileSync fs p of
              Inl (Error msg) \<Rightarrow> Inl (invalidJson msg)
            | Inr raw \<Rightarrow>
                (case jsonParse e raw of
                   Inl (Error msg) \<Rightarrow> Inl (invalidJson msg)
                 | Inr JNull \<Rightarrow> Inl (invalidJson ''Cannot read properties of null'')
                 | Inr (JFields r i x b) \<Rightarrow>
                     Inr (Some \<lparr> repoUrl = orElse r [],
                                 includeGlobs = orElse i DEFAULT_INCLUDE,
                                 excludeGlobs = orElse x DEFAULT_EXCLUDE,
                                 branch = orElse b ''main'' \<rparr>))))"

section \<open>The hosting CLI (gh.ts)\<close>

definition isSpace :: "char \<Rightarrow> bool" where
  "isSpace c = (c \<in> set [CHR '' '', CHR 0x09, CHR 0x0A, CHR 0x0B, CHR 0x0C, CHR 0x0D])"

definition trim :: "string \<Rightarrow> string" where
  "trim s = rev (dropWhile isSpace (rev (dropWhile isSpace s)))"

definition isWordChar :: "char \<Rightarrow> bool" where
  "isWordChar c = ((CHR ''a'' \<le> c \<and> c \<le> CHR ''z'') \<or> (CHR ''A'' \<le> c \<and> c \<le> CHR ''Z'')
     \<or> (CHR ''0'' \<le> c \<and> c \<le> CHR ''9'') \<or> c = CHR ''_'')"

definition isOwnerChar :: "char \<Rightarrow> bool" where
  "isOwnerChar c = (isWordChar c \<or> c = CHR ''.'' \<or> c = CHR ''-'')"

definition isNameChar :: "char \<Rightarrow> bool" where
  "isNameChar c = (\<not> isSpace c \<and> c \<noteq> CHR ''/'' \<and> c \<noteq> CHR ''#'')"

text \<open>The tail \<open>(?:\.git)?\/?$\<close> of the pattern, under the \<open>i\<close> flag.\<close>

definition tailOk :: "string \<Rightarrow> bool" where
  "tailOk r = (toLowerCase r \<in> set [[], ''.git'', ''/'', ''.git/''])"

text \<open>The lazy group \<open>([^\s/#]+?)\<close>: the shortest non-empty name after which the tail matches.\<close>

fun lazyName :: "string \<Rightarrow> string \<Rightarrow> string option" where
  "lazyName acc [] = (if acc \<noteq> [] then Some (rev acc) else None)"
| "lazyName acc (c # cs) =
     (if acc \<noteq> [] \<and> tailOk (c # cs) then Some (rev acc)
      else if isNameChar c then lazyName (c # acc) cs else None)"

definition stripGit :: "string \<Rightarrow> string" where
  "stripGit n = (if endsWith n ''.git'' then take (length n - 4) n else n)"

text \<open>
  A match of \<open>github\.com[seps](\w[\w.-]*)\/([^\s/#]+?)(?:\.git)?\/?$\<close> (flag \<open>i\<close>)
  starting at the head of the string.
\<close>

definition matchHere :: "char list \<Rightarrow> string \<Rightarrow> (string \<times> string) option" where
  "matchHere seps s =
     (if \<not> startsWith (toLowerCase s) ''github.com'' then None
      else (case drop 10 s of
              [] \<Rightarrow> None
            | sep # r \<Rightarrow>
                if sep \<notin> set seps then None
                else (let owner = takeWhile (\<lambda>c. c \<noteq> CHR ''/'') r;
                          rest = dropWhile (\<lambda>c. c \<noteq> CHR ''/'') r
                      in if owner = [] \<or> \<not> isWordChar (hd owner) \<or> \<not> list_all isOwnerChar owner
                         then None
                         else (case rest of
                                 [] \<Rightarrow> None
                               | slash # s2 \<Rightarrow>
                                   (case lazyName [] s2 of
                                      None \<Rightarrow> None
                                    | Some name \<Rightarrow> Some (owner, name))))))"

fun findMatch :: "char list \<Rightarrow> string \<Rightarrow> (string \<times> string) option" where
  "findMatch seps [] = matchHere seps []"
| "findMatch seps (c # cs) =
     (case matchHere seps (c # cs) of Some m \<Rightarrow> Some m | None \<Rightarrow> findMatch seps cs)"

definition parseGitHubRepoUrl :: "string \<Rightarrow> string option" where
  "parseGitHubRepoUrl url =
     (let trimmed = trim url in
      case findMatch [CHR ''/'', CHR '':''] trimmed of
        Some (owner, name) \<Rightarrow> Some (owner @ ''/'' @ stripGit name)
      | None \<Rightarrow>
          (case findMatch [CHR '':''] trimmed of
             Some (owner, name) \<Rightarrow> Some (owner @ ''/'' @ stripGit name)
           | None \<Rightarrow> None))"

definition isGhAvailable :: "env \<Rightarrow> bool" where
  "isGhAvailable e = ghAvailable e"

section \<open>The world: local disk, remote vault, and the clone's history\<close>

text \<open>
  \<open>remote\<close> is the tree of the configured branch of the remote repository, \<open>None\<close>
  when the repository or the branch does not exist. \<open>gitHead\<close> is the tree of the last
  commit of the repository in the temp directory. Git keeps files and links, never an
  empty directory; the \<open>.git\<close> directory itself is left out of the disk tree.
\<close>

record world =
  disk :: node
  remote :: "node option"
  gitHead :: node

fun isDirectory :: "node \<Rightarrow> bool" where
  "isDirectory (Dir es) = True"
| "isDirectory n = False"

text \<open>The body of \<open>removeEmptyDirs\<close> (vault.ts), on the tree of the directory it is
  called on: \<open>None\<close> when the directory itself ends up removed.\<close>

fun removeEmptyDirs :: "node \<Rightarrow> node option"
  and removeEmptyDirsIn :: "(string \<times> node) list \<Rightarrow> (string \<times> node) list" where
  "removeEmptyDirs (Dir es) =
     (let es' = removeEmptyDirsIn es in if es' = [] then None else Some (Dir es'))"
| "removeEmptyDirs (File c) = Some (File c)"
| "removeEmptyDirs (Symlink t) = Some (Symlink t)"
| "removeEmptyDirsIn [] = []"
| "removeEmptyDirsIn ((k, c) # es) =
     (if isDirectory c
      then (case removeEmptyDirs c of
              None \<Rightarrow> removeEmptyDirsIn es
            | Some c' \<Rightarrow> (k, c') # removeEmptyDirsIn es)
      else (k, c) # removeEmptyDirsIn es)"

text \<open>The tree that a commit of a working tree records.\<close>

definition gitTree :: "node \<Rightarrow> node" where
  "gitTree n = (case removeEmptyDirs n of None \<Rightarrow> Dir [] | Some t \<Rightarrow> t)"

text \<open>The tracked entries of a tree: every file and link with its path.\<close>

fun flatten :: "node \<Rightarrow> (path \<times> node) list"
  and flattenIn :: "(string \<times> node) list \<Rightarrow> (path \<times> node) list" where
  "flatten (Dir es) = flattenIn es"
| "flatten (File c) = [([], File c)]"
| "flatten (Symlink t) = [([], Symlink t)]"
| "flattenIn [] = []"
| "flattenIn ((k, c) # es) = map (\<lambda>(p, l). (k # p, l)) (flatten c) @ flattenIn es"

text \<open>Replacing the entry at an existing path.\<close>

fun setNode :: "node \<Rightarrow> path \<Rightarrow> node \<Rightarrow> node" where
  "setNode n [] new = new"
| "setNode (Dir es) (s # ss) new =
     (case map_of es s of
        None \<Rightarrow> Dir es
      | Some c \<Rightarrow> Dir (AList.update s (setNode c ss new) es))"
| "setNode n (s # ss) new = n"

definition workTree :: "world \<Rightarrow> path \<Rightarrow> node" where
  "workTree w dir = (case lookup (disk w) dir of None \<Rightarrow> Dir [] | Some t \<Rightarrow> t)"

text \<open>\<open>git.clone(repoUrl, tempDir, ["--branch", branch])\<close>.\<close>

definition gitClone :: "path \<Rightarrow> world \<Rightarrow> error + world" where
  "gitClone dir w =
     (case remote w of
        None \<Rightarrow> Inl (Error ''fatal: Remote branch not found in upstream origin'')
      | Some t \<Rightarrow> Inr (w\<lparr>disk := setNode (disk w) dir t, gitHead := t\<rparr>))"

text \<open>\<open>git.status()\<close> and the test \<open>hasChanges\<close> made of it.\<close>

definition hasChanges :: "path \<Rightarrow> world \<Rightarrow> bool" where
  "hasChanges dir w = (set (flatten (workTree w dir)) \<noteq> set (flatten (gitHead w)))"

text \<open>\<open>git.add(".")\<close> followed by \<open>git.commit(msg)\<close>.\<close>

definition gitAddCommit :: "path \<Rightarrow> world \<Rightarrow> world" where
  "gitAddCommit dir w = w\<lparr>gitHead := gitTree (workTree w dir)\<rparr>"

text \<open>\<open>git.push("origin", branch)\<close>.\<close>

definition gitPush :: "env \<Rightarrow> world \<Rightarrow> error + world" where
  "gitPush e w =
     (case pushError e of
        Some msg \<Rightarrow> Inl (Error msg)
      | None \<Rightarrow> Inr (w\<lparr>remote := Some (gitHead w)\<rparr>))"

text \<open>\<open>createGitHubRepoAndPush\<close>: on success the new remote holds the local commit.\<close>

definition createGitHubRepoAndPush :: "env \<Rightarrow> string \<Rightarrow> world \<Rightarrow> bool \<times> world" where
  "createGitHubRepoAndPush e url w =
     (case parseGitHubRepoUrl url of
        None \<Rightarrow> (False, w)
      | Some repo \<Rightarrow>
          if \<not> isGhAvailable e then (False, w)
          else if ghCreateOk e then (True, w\<lparr>remote := Some (gitHead w)\<rparr>)
          else (False, w))"

section \<open>A reference matcher for the scenarios\<close>

text \<open>
  The concrete scenarios below need a value for the \<open>globSync\<close> component of their
  environment. This matcher serves there. It reads a pattern as segments separated by
  \<open>/\<close>, made of literal characters, \<open>?\<close>, \<open>*\<close> (within one segment) and the
  segment \<open>**\<close> (any number of segments); with \<open>dot: true\<close> no name is special. It knows
  no braces, character classes, escapes, \<open>.\<close> or \<open>..\<close> segments, and it lists the matches
  in directory order. It is used only at the patterns and trees of the scenarios; the
  general properties of \<open>collectFiles\<close> are stated for every \<open>globSync\<close>.
\<close>

fun segMatch :: "string \<Rightarrow> string \<Rightarrow> bool" where
  "segMatch [] [] = True"
| "segMatch [] (c # cs) = False"
| "segMatch (p # ps) [] = (p = CHR ''*'' \<and> segMatch ps [])"
| "segMatch (p # ps) (c # cs) =
     (if p = CHR ''*'' then segMatch ps (c # cs) \<or> segMatch (p # ps) cs
      else (p = CHR ''?'' \<or> p = c) \<and> segMatch ps cs)"

fun pathMatch :: "string list \<Rightarrow> path \<Rightarrow> bool" where
  "pathMatch [] [] = True"
| "pathMatch [] (x # xs) = False"
| "pathMatch (p # ps) [] = (p = ''**'' \<and> pathMatch ps [])"
| "pathMatch (p # ps) (x # xs) =
     (if p = ''**'' then pathMatch ps (x # xs) \<or> pathMatch (p # ps) xs
      else segMatch p x \<and> pathMatch ps xs)"

definition globMatch :: "string \<Rightarrow> path \<Rightarrow> bool" where
  "globMatch pattern p = pathMatch (splitOn CHR ''/'' pattern) p"

fun joinStr :: "string list \<Rightarrow> string" where
  "joinStr [] = []"
| "joinStr [x] = x"
| "joinStr (x # y # ys) = x @ ''/'' @ joinStr (y # ys)"

text \<open>
  The entries below \<open>cwd\<close> that are not directories (links are not followed), match
  the pattern and match no ignore pattern, as paths relative to \<open>cwd\<close>.
\<close>

definition glob :: "string \<Rightarrow> path \<Rightarrow> string list \<Rightarrow> node \<Rightarrow> string list" where
  "glob pattern cwd ignore fs =
     (case lookup fs cwd of
        Some (Dir es) \<Rightarrow>
          map joinStr
            (filter (\<lambda>p. globMatch pattern p \<and> \<not> list_ex (\<lambda>i. globMatch i p) ignore)
               (map fst (flattenIn es)))
      | _ \<Rightarrow> [])"

section \<open>Vault operations (vault.ts)\<close>

record VaultFile =
  path :: "string list"
  relativePath :: string

definition isRepoNotFoundError :: "error \<Rightarrow> bool" where
  "isRepoNotFoundError err =
     (case err of Error msg \<Rightarrow>
        (let lower = toLowerCase msg in
         str_includes lower ''repository not found'' \<or>
         str_includes lower ''could not read from remote'' \<or>
         str_includes lower ''does not appear to be a git repository'' \<or>
         str_includes lower ''remote repository is empty'' \<or>
         str_includes lower ''failed to connect''))"

definition getWorkspaceName :: "string list \<Rightarrow> string" where
  "getWorkspaceName cwd = (if basename cwd = [] then ''default'' else basename cwd)"

text \<open>\<open>relative(from, to)\<close> of the \<open>path\<close> module, for absolute normalised paths.\<close>

fun relativeSegs :: "string list \<Rightarrow> string list \<Rightarrow> string list" where
  "relativeSegs (a # as) (b # bs) =
     (if a = b then relativeSegs as bs else replicate (length (a # as)) ''..'' @ (b # bs))"
| "relativeSegs as bs = replicate (length as) ''..'' @ bs"

definition relative :: "string list \<Rightarrow> string list \<Rightarrow> string" where
  "relative from to = joinStr (relativeSegs from to)"

definition getWorkspaceRelativePath :: "string list \<Rightarrow> string list \<Rightarrow> string" where
  "getWorkspaceRelativePath cwd absolutePath =
     map (\<lambda>c. if c = CHR 0x5C then CHR ''/'' else c) (relative cwd absolutePath)"

text \<open>The inner loop of \<open>collectFiles\<close> over the matches of one pattern; the state is
  \<open>results\<close> and \<open>seen\<close>.\<close>

fun collectMatches :: "node \<Rightarrow> string list \<Rightarrow> string list \<Rightarrow> VaultFile list \<times> string list list
    \<Rightarrow> VaultFile list \<times> string list list" where
  "collectMatches fs cwd [] st = st"
| "collectMatches fs cwd (f # files) (results, seen) =
     (let abs = joinRel cwd f in
      if abs \<in> set seen then collectMatches fs cwd files (results, seen)
      else (case statIsFile fs abs of
              Inr True \<Rightarrow>
                collectMatches fs cwd files
                  (results @ [\<lparr> path = abs, relativePath = getWorkspaceRelativePath cwd abs \<rparr>],
                   seen @ [abs])
            | _ \<Rightarrow> collectMatches fs cwd files (results, seen @ [abs])))"

text \<open>The outer loop over \<open>config.include\<close>, with \<open>config.exclude\<close> as the ignore list
  of every call of the library.\<close>

fun collectPatterns :: "env \<Rightarrow> node \<Rightarrow> string list \<Rightarrow> string list \<Rightarrow> string list
    \<Rightarrow> VaultFile list \<times> string list list \<Rightarrow> VaultFile list \<times> string list list" where
  "collectPatterns e fs cwd ignore [] st = st"
| "collectPatterns e fs cwd ignore (pattern # ps) st =
     collectPatterns e fs cwd ignore ps (collectMatches fs cwd (globSync e pattern cwd ignore fs) st)"

definition collectFiles :: "env \<Rightarrow> node \<Rightarrow> string list \<Rightarrow> error + VaultFile list" where
  "collectFiles e fs cwd =
     (case loadConfig e fs cwd of
        Inl err \<Rightarrow> Inl err
      | Inr None \<Rightarrow> Inr []
      | Inr (Some config) \<Rightarrow>
          Inr (fst (collectPatterns e fs cwd (excludeGlobs config) (includeGlobs config) ([], []))))"

definition workspaceRoot :: "string list \<Rightarrow> string list \<Rightarrow> string list" where
  "workspaceRoot vaultPath cwd = vaultPath @ [''vault'', getWorkspaceName cwd]"

text \<open>A function that returns nothing gives \<open>None\<close>, or \<open>Some\<close> error it threw, and the
  disk as it left it.\<close>

fun copyToVault :: "VaultFile list \<Rightarrow> string list \<Rightarrow> string list \<Rightarrow> node \<Rightarrow> error option \<times> node" where
  "copyToVault [] vaultPath cwd fs = (None, fs)"
| "copyToVault (f # files) vaultPath cwd fs =
     (let dest = joinRel (workspaceRoot vaultPath cwd) (relativePath f);
          destDir = dirname dest
      in case (if \<not> existsSync fs destDir then mkdirSync fs destDir else Inr fs) of
           Inl err \<Rightarrow> (Some err, fs)
         | Inr fs1 \<Rightarrow>
             (case cpSync fs1 (path f) dest of
                Inl err \<Rightarrow> (Some err, fs1)
              | Inr fs2 \<Rightarrow> copyToVault files vaultPath cwd fs2))"

definition relOf :: "string \<Rightarrow> string \<Rightarrow> string" where
  "relOf prefix name = (if prefix = [] then name else prefix @ ''/'' @ name)"

text \<open>The first \<open>walk\<close> of \<open>removeExcludedFromVault\<close>: the paths pushed on \<open>toDelete\<close>.\<close>

fun walkExcluded :: "node \<Rightarrow> string list \<Rightarrow> string \<Rightarrow> string list \<Rightarrow> string list list"
  and walkExcludedIn :: "(string \<times> node) list \<Rightarrow> string list \<Rightarrow> string \<Rightarrow> string list
    \<Rightarrow> string list list" where
  "walkExcluded (Dir es) dir prefix allowed = walkExcludedIn es dir prefix allowed"
| "walkExcluded (File c) dir prefix allowed = []"
| "walkExcluded (Symlink t) dir prefix allowed = []"
| "walkExcludedIn [] dir prefix allowed = []"
| "walkExcludedIn ((name, c) # es) dir prefix allowed =
     (let full = dir @ [name]; rel = relOf prefix name in
      (if isDirectory c then walkExcluded c full rel allowed
       else if rel \<notin> set allowed then [full] else [])
      @ walkExcludedIn es dir prefix allowed)"

definition removeExcludedFromVault ::
    "string list \<Rightarrow> string list \<Rightarrow> string list \<Rightarrow> node \<Rightarrow> error option \<times> node" where
  "removeExcludedFromVault vaultPath cwd allowedRelativePaths fs =
     (let root = workspaceRoot vaultPath cwd in
      if \<not> existsSync fs root then (None, fs)
      else (case lookup fs root of
              Some (Dir es) \<Rightarrow>
                (let toDelete = walkExcludedIn es root [] allowedRelativePaths;
                     fs1 = foldl rmSync fs toDelete
                 in case lookup fs1 root of
                      Some (Dir es1) \<Rightarrow>
                        (case removeEmptyDirs (Dir es1) of
                           None \<Rightarrow> (None, rmSync fs1 root)
                         | Some t \<Rightarrow> (None, setNode fs1 root t))
                    | _ \<Rightarrow> (None, fs1))
            | _ \<Rightarrow> (Some (Error ''ENOTDIR''), fs)))"

definition leafContent :: "node \<Rightarrow> error + string" where
  "leafContent n =
     (case n of
        File c \<Rightarrow> Inr c
      | Symlink (ToFile c) \<Rightarrow> Inr c
      | Symlink Dangling \<Rightarrow> Inl (Error ''ENOENT'')
      | Dir es \<Rightarrow> Inl (Error ''EISDIR''))"

definition pathSelected :: "string list option \<Rightarrow> string \<Rightarrow> string \<Rightarrow> string \<Rightarrow> bool" where
  "pathSelected specificPaths vaultRel rel name =
     (case specificPaths of
        None \<Rightarrow> True
      | Some ps \<Rightarrow>
          if ps = [] then True
          else list_ex (\<lambda>p. vaultRel = p \<or> rel = p \<or> endsWith rel (''/'' @ p) \<or> p = name) ps)"

text \<open>The \<open>walk\<close> of \<open>copyFromVault\<close> over the tree of the workspace in the clone; the
  state is \<open>count\<close> and the disk. The clone lies in a fresh temp directory, which
  the writes into the project root do not reach.\<close>

fun walkCopy :: "node \<Rightarrow> string \<Rightarrow> string \<Rightarrow> string list \<Rightarrow> string list option \<Rightarrow> nat \<times> node
    \<Rightarrow> error option \<times> nat \<times> node"
  and walkCopyIn :: "(string \<times> node) list \<Rightarrow> string \<Rightarrow> string \<Rightarrow> string list \<Rightarrow> string list option
    \<Rightarrow> nat \<times> node \<Rightarrow> error option \<times> nat \<times> node" where
  "walkCopy (Dir es) prefix ws cwd sp st = walkCopyIn es prefix ws cwd sp st"
| "walkCopy (File c) prefix ws cwd sp st = (None, st)"
| "walkCopy (Symlink t) prefix ws cwd sp st = (None, st)"
| "walkCopyIn [] prefix ws cwd sp st = (None, st)"
| "walkCopyIn ((name, c) # es) prefix ws cwd sp (count, fs) =
     (let rel = relOf prefix name; vaultRel = ws @ ''/'' @ rel in
      if isDirectory c
      then (case walkCopy c rel ws cwd sp (count, fs) of
              (Some err, st) \<Rightarrow> (Some err, st)
            | (None, st) \<Rightarrow> walkCopyIn es prefix ws cwd sp st)
      else if \<not> pathSelected sp vaultRel rel name then walkCopyIn es prefix ws cwd sp (count, fs)
      else (let dest = joinRel cwd rel; destDir = dirname dest in
            case (if \<not> existsSync fs destDir then mkdirSync fs destDir else Inr fs) of
              Inl err \<Rightarrow> (Some err, count, fs)
            | Inr fs1 \<Rightarrow>
                (case leafContent c of
                   Inl err \<Rightarrow> (Some err, count, fs1)
                 | Inr data \<Rightarrow>
                     (case writeFileSync fs1 dest data of
                        Inl err \<Rightarrow> (Some err, count, fs1)
                      | Inr fs2 \<Rightarrow> walkCopyIn es prefix ws cwd sp (Suc count, fs2)))))"

definition copyFromVault ::
    "string list \<Rightarrow> string list \<Rightarrow> string list option \<Rightarrow> node \<Rightarrow> (error + nat) \<times> node" where
  "copyFromVault vaultPath cwd specificPaths fs =
     (let workspaceName = getWorkspaceName cwd; root = workspaceRoot vaultPath cwd in
      if \<not> existsSync fs root then (Inr 0, fs)
      else (case lookup fs root of
              Some (Dir es) \<Rightarrow>
                (case walkCopyIn es [] workspaceName cwd specificPaths (0, fs) of
                   (Some err, count, fs') \<Rightarrow> (Inl err, fs')
                 | (None, count, fs') \<Rightarrow> (Inr count, fs'))
            | _ \<Rightarrow> (Inl (Error ''ENOTDIR''), fs)))"

fun walkList :: "node \<Rightarrow> string \<Rightarrow> string list"
  and walkListIn :: "(string \<times> node) list \<Rightarrow> string \<Rightarrow> string list" where
  "walkList (Dir es) prefix = walkListIn es prefix"
| "walkList (File c) prefix = []"
| "walkList (Symlink t) prefix = []"
| "walkListIn [] prefix = []"
| "walkListIn ((name, c) # es) prefix =
     (let rel = relOf prefix name in
      (if isDirectory c then walkList c rel else [rel]) @ walkListIn es prefix)"

definition listVaultFiles :: "string list \<Rightarrow> node \<Rightarrow> error + string list" where
  "listVaultFiles vaultPath fs =
     (let vaultContent = vaultPath @ [''vault''] in
      if \<not> existsSync fs vaultContent then Inr []
      else (case lookup fs vaultContent of
              Some (Dir es) \<Rightarrow> Inr (sort (walkListIn es []))
            | _ \<Rightarrow> Inl (Error ''ENOTDIR'')))"

section \<open>The ephemeral session (vault.ts)\<close>

definition notInitialized :: error where
  "notInitialized = Error ''Not initialized. Run 'agvault init' first.''"

text \<open>\<open>mkdtempSync(join(tmpdir(), "agvault-"))\<close>; \<open>tempDir\<close> is the fresh path the
  system picks: its parent must be a directory that has no such entry yet.\<close>

definition mkdtempSync :: "node \<Rightarrow> string list \<Rightarrow> error + node" where
  "mkdtempSync fs tempDir =
     (if tempDir = [] then Inl (Error ''EEXIST'')
      else (case lookup fs (butlast tempDir) of
              Some (Dir es) \<Rightarrow>
                (if map_of es (last tempDir) = None then mkdirSync fs tempDir
                 else Inl (Error ''EEXIST''))
            | _ \<Rightarrow> Inl (Error ''ENOENT'')))"

text \<open>Modelled from the spec: \<open>ensureGhGitAuth\<close> of gh.ts is not among the sources. The
  spec describes it as a side effect that engages the credential helper before
  cloning; it touches neither the disk tree nor the remote, and does not fail.\<close>

definition ensureGhGitAuth :: "world \<Rightarrow> world" where
  "ensureGhGitAuth w = w"

definition createTempVaultRepo :: "string list \<Rightarrow> world \<Rightarrow> error + world" where
  "createTempVaultRepo tempDir w =
     (let w1 = w\<lparr>gitHead := Dir []\<rparr>;
          vaultContentDir = tempDir @ [''vault'']
      in case mkdirSync (disk w1) vaultContentDir of
           Inl err \<Rightarrow> Inl err
         | Inr fs1 \<Rightarrow>
             (case writeFileSync fs1 (vaultContentDir @ [''.gitkeep'']) [] of
                Inl err \<Rightarrow> Inl err
              | Inr fs2 \<Rightarrow> Inr (gitAddCommit tempDir (w1\<lparr>disk := fs2\<rparr>))))"

text \<open>The state in which \<open>withTempVault\<close> calls the operation: after the clone, or after
  the bootstrap when the clone failed.\<close>

definition openSession :: "env \<Rightarrow> AgVaultConfig \<Rightarrow> string list \<Rightarrow> world \<Rightarrow> error + world" where
  "openSession e config tempDir w =
     (case mkdtempSync (disk w) tempDir of
        Inl err \<Rightarrow> Inl err
      | Inr fs1 \<Rightarrow>
          (let w1 = w\<lparr>disk := fs1\<rparr>;
               w2 = (if parseGitHubRepoUrl (repoUrl config) \<noteq> None \<and> isGhAvailable e
                     then ensureGhGitAuth w1 else w1)
           in case gitClone tempDir w2 of
                Inr w3 \<Rightarrow> Inr w3
              | Inl err \<Rightarrow> createTempVaultRepo tempDir w2))"

definition cleanup :: "string list \<Rightarrow> world \<Rightarrow> world" where
  "cleanup tempDir w = w\<lparr>disk := rmSync (disk w) tempDir\<rparr>"

definition withTempVault ::
    "env \<Rightarrow> string list \<Rightarrow> string list \<Rightarrow> (string list \<Rightarrow> world \<Rightarrow> (error + 'a) \<times> world) \<Rightarrow> world
     \<Rightarrow> (error + 'a) \<times> world" where
  "withTempVault e tempDir cwd fn w =
     (case loadConfig e (disk w) cwd of
        Inl err \<Rightarrow> (Inl err, w)
      | Inr None \<Rightarrow> (Inl notInitialized, w)
      | Inr (Some config) \<Rightarrow>
          if repoUrl config = [] then (Inl notInitialized, w)
          else (case mkdtempSync (disk w) tempDir of
                  Inl err \<Rightarrow> (Inl err, w)
                | Inr fs1 \<Rightarrow>
                    (case openSession e config tempDir w of
                       Inl err \<Rightarrow> (Inl err, cleanup tempDir (w\<lparr>disk := fs1\<rparr>))
                     | Inr w3 \<Rightarrow>
                         (case fn tempDir w3 of (r, w4) \<Rightarrow> (r, cleanup tempDir w4)))))"

definition pullFromVault ::
    "env \<Rightarrow> string list \<Rightarrow> string list \<Rightarrow> string list option \<Rightarrow> world \<Rightarrow> (error + nat) \<times> world" where
  "pullFromVault e tempDir cwd specificPaths w =
     withTempVault e tempDir cwd
       (\<lambda>vaultPath w'. case copyFromVault vaultPath cwd specificPaths (disk w') of
                         (r, fs') \<Rightarrow> (r, w'\<lparr>disk := fs'\<rparr>)) w"

definition remoteNotFoundMessage :: "env \<Rightarrow> string \<Rightarrow> string" where
  "remoteNotFoundMessage e url =
     (let hint = (case parseGitHubRepoUrl url of
                    Some repo \<Rightarrow>
                      ''Create the repo at https://github.com/new?name='' @
                      (case splitOn CHR ''/'' repo of a # b # r \<Rightarrow> b | _ \<Rightarrow> ''undefined'') @
                      '' (private), then run agvault store again.''
                  | None \<Rightarrow> ''Create a private repo at https://github.com/new and use its URL in agvault init, then run agvault store again.'')
      in ''Remote repository not found. '' @
         (if isGhAvailable e then ''Run `gh auth login` and try again, or ''
          else ''Install GitHub CLI (gh) and run `gh auth login` to create the repo automatically, or '') @
         hint)"

text \<open>The operation that \<open>storeToVault\<close> runs inside the session.\<close>

definition storeBody ::
    "env \<Rightarrow> string list \<Rightarrow> VaultFile list \<Rightarrow> string list \<Rightarrow> world \<Rightarrow> (error + nat) \<times> world" where
  "storeBody e cwd files vaultPath w =
     (case loadConfig e (disk w) cwd of
        Inl err \<Rightarrow> (Inl err, w)
      | Inr config \<Rightarrow>
          (case copyToVault files vaultPath cwd (disk w) of
             (Some err, fs1) \<Rightarrow> (Inl err, w\<lparr>disk := fs1\<rparr>)
           | (None, fs1) \<Rightarrow>
               (case removeExcludedFromVault vaultPath cwd (map relativePath files) fs1 of
                  (Some err, fs2) \<Rightarrow> (Inl err, w\<lparr>disk := fs2\<rparr>)
                | (None, fs2) \<Rightarrow>
                    (let w2 = w\<lparr>disk := fs2\<rparr> in
                     if \<not> hasChanges vaultPath w2 then (Inr (length files), w2)
                     else (let w3 = gitAddCommit vaultPath w2 in
                           case config of
                             None \<Rightarrow> (Inl (Error ''Cannot read properties of null''), w3)
                           | Some cfg \<Rightarrow>
                               (case gitPush e w3 of
                                  Inr w4 \<Rightarrow> (Inr (length files), w4)
                                | Inl err \<Rightarrow>
                                    if \<not> isRepoNotFoundError err then (Inl err, w3)
                                    else (case (if isGhAvailable e
                                                then createGitHubRepoAndPush e (repoUrl cfg) w3
                                                else (False, w3)) of
                                            (True, w4) \<Rightarrow> (Inr (length files), w4)
                                          | (False, w4) \<Rightarrow>
                                              (Inl (Error (remoteNotFoundMessage e (repoUrl cfg))),
                                               w4))))))))"

definition storeToVault ::
    "env \<Rightarrow> string list \<Rightarrow> string list \<Rightarrow> world \<Rightarrow> (error + nat) \<times> world" where
  "storeToVault e tempDir cwd w =
     (case collectFiles e (disk w) cwd of
        Inl err \<Rightarrow> (Inl err, w)
      | Inr files \<Rightarrow> withTempVault e tempDir cwd (storeBody e cwd files) w)"

definition listVaultFilesRemote ::
    "env \<Rightarrow> string list \<Rightarrow> string list \<Rightarrow> world \<Rightarrow> (error + string list) \<times> world" where
  "listVaultFilesRemote e tempDir cwd w =
     withTempVault e tempDir cwd (\<lambda>vaultPath w'. (listVaultFiles vaultPath (disk w'), w')) w"

section \<open>Well-formed trees and the words of the claims\<close>

text \<open>
  What \<open>readdirSync\<close> can return: names that are not empty, not \<open>.\<close> or \<open>..\<close>, without
  a slash, and no name twice in one directory.
\<close>

definition validName :: "string \<Rightarrow> bool" where
  "validName n = (n \<noteq> [] \<and> n \<noteq> ''.'' \<and> n \<noteq> ''..'' \<and> CHR ''/'' \<notin> set n)"

fun wfNode :: "node \<Rightarrow> bool"
  and wfEntries :: "(string \<times> node) list \<Rightarrow> bool" where
  "wfNode (Dir es) = wfEntries es"
| "wfNode (File c) = True"
| "wfNode (Symlink t) = True"
| "wfEntries [] = True"
| "wfEntries ((k, c) # es) = (validName k \<and> k \<notin> fst ` set es \<and> wfNode c \<and> wfEntries es)"

text \<open>An entry that \<open>statSync\<close> reports as a regular file: a regular file, or a link that
  resolves to one.\<close>

definition followsToFile :: "node \<Rightarrow> bool" where
  "followsToFile n = (case n of File c \<Rightarrow> True | Symlink (ToFile c) \<Rightarrow> True | _ \<Rightarrow> False)"

text \<open>A list without its repetitions, each element at its first occurrence.\<close>

definition firstOccurrences :: "'a list \<Rightarrow> 'a list" where
  "firstOccurrences xs = rev (remdups (rev xs))"

text \<open>The \<open>VaultFile\<close> that \<open>collectFiles\<close> pushes for an absolute path, and the update of
  its \<open>seen\<close> set.\<close>

definition vaultFileAt :: "string list \<Rightarrow> string list \<Rightarrow> VaultFile" where
  "vaultFileAt cwd absolutePath =
     \<lparr> path = absolutePath, relativePath = getWorkspaceRelativePath cwd absolutePath \<rparr>"

definition insertSeen :: "'a list \<Rightarrow> 'a \<Rightarrow> 'a list" where
  "insertSeen seen x = (if x \<in> set seen then seen else seen @ [x])"

text \<open>The file or link at a path, if there is one: what a write "of a file" can change.\<close>

definition leafAt :: "node \<Rightarrow> string list \<Rightarrow> node option" where
  "leafAt fs q = (case lookup fs q of None \<Rightarrow> None | Some n \<Rightarrow> if isDirectory n then None else Some n)"

text \<open>No name twice in one directory, at every level.\<close>

fun uniqueNames :: "node \<Rightarrow> bool"
  and uniqueNamesIn :: "(string \<times> node) list \<Rightarrow> bool" where
  "uniqueNames (Dir es) = uniqueNamesIn es"
| "uniqueNames (File c) = True"
| "uniqueNames (Symlink t) = True"
| "uniqueNamesIn [] = True"
| "uniqueNamesIn ((k, c) # es) = (k \<notin> fst ` set es \<and> uniqueNames c \<and> uniqueNamesIn es)"

text \<open>What holds of the disk throughout a session in \<open>tmp\<close>: the temp directory exists,
  the disk without it is \<open>D\<close>, the entry at \<open>q\<close> is \<open>v\<close>, and names are unique.\<close>

definition insideTemp :: "string list \<Rightarrow> node \<Rightarrow> string list \<Rightarrow> node option \<Rightarrow> node \<Rightarrow> bool" where
  "insideTemp tmp D q v fs \<longleftrightarrow>
     tmp \<noteq> [] \<and> lookup fs tmp \<noteq> None \<and> rmSync fs tmp = D \<and> lookup fs q = v \<and> uniqueNames fs"

text \<open>A prefix as the walks build it: the names of a path joined by slashes.\<close>

definition relPath :: "string \<Rightarrow> bool" where
  "relPath pre \<longleftrightarrow> (\<exists>ps. list_all validName ps \<and> pre = joinStr ps)"

text \<open>The state and the result of the walk of \<open>copyFromVault\<close>, with the tree at \<open>tmp\<close>
  replaced.\<close>

definition liftSt :: "string list \<Rightarrow> node \<Rightarrow> nat \<times> node \<Rightarrow> nat \<times> node" where
  "liftSt tmp n st = (fst st, setNode (snd st) tmp n)"

definition liftRes :: "string list \<Rightarrow> node \<Rightarrow> error option \<times> nat \<times> node \<Rightarrow> error option \<times> nat \<times> node" where
  "liftRes tmp n r = (fst r, liftSt tmp n (snd r))"

text \<open>The step \<open>if (!existsSync(destDir)) mkdirSync(destDir, { recursive: true })\<close> that both
  copies make.\<close>

definition ensureDir :: "node \<Rightarrow> string list \<Rightarrow> error + node" where
  "ensureDir fs d = (if \<not> existsSync fs d then mkdirSync fs d else Inr fs)"

text \<open>The outcome of a pull (result, and local disk afterwards) as a function of the
  workspace subtree \<open>v\<close> of the cloned vault and of the disk \<open>fs1\<close> that holds the empty
  temp directory.\<close>

definition pullOutcome ::
    "node option \<Rightarrow> string list \<Rightarrow> string list option \<Rightarrow> string list \<Rightarrow> node \<Rightarrow> (error + nat) \<times> node" where
  "pullOutcome v cwd sp tmp fs1 =
     (case v of
        Some (Dir es) \<Rightarrow>
          (case walkCopyIn es [] (getWorkspaceName cwd) cwd sp (0, fs1) of
             (Some err, count, fs') \<Rightarrow> (Inl err, rmSync fs' tmp)
           | (None, count, fs') \<Rightarrow> (Inr count, rmSync fs' tmp))
      | Some (File c) \<Rightarrow> (Inl (Error ''ENOTDIR''), rmSync fs1 tmp)
      | Some (Symlink (ToFile c)) \<Rightarrow> (Inl (Error ''ENOTDIR''), rmSync fs1 tmp)
      | Some (Symlink Dangling) \<Rightarrow> (Inr 0, rmSync fs1 tmp)
      | None \<Rightarrow> (Inr 0, rmSync fs1 tmp))"

section \<open>Concrete scenarios\<close>

text \<open>
  A project \<open>/home/proj\<close> with a config that names only the repository, a remote vault
  that holds the placeholder alone, and an environment whose JSON parser reads that one
  config text and rejects everything else.
\<close>

definition exampleEnv :: env where
  "exampleEnv =
     \<lparr> jsonParse = (\<lambda>s. if s = ''{repoUrl: https://github.com/alice/notes.git}''
                         then Inr (JFields (Some ''https://github.com/alice/notes.git'') None None None)
                         else Inl (Error ''Unexpected token'')),
       globSync = glob,
       ghAvailable = True, ghCreateOk = False, pushError = None \<rparr>"

definition exampleConfig :: AgVaultConfig where
  "exampleConfig =
     \<lparr> repoUrl = ''https://github.com/alice/notes.git'', includeGlobs = DEFAULT_INCLUDE,
       excludeGlobs = DEFAULT_EXCLUDE, branch = ''main'' \<rparr>"

definition exampleProject :: node where
  "exampleProject =
     Dir [(''.agvault'', Dir [(''config.json'', File ''{repoUrl: https://github.com/alice/notes.git}'')]),
          (''README.md'', File ''hello''),
          (''node_modules'', Dir [(''pkg'', Dir [(''readme.md'', File ''x'')])])]"

definition exampleDisk :: node where
  "exampleDisk = Dir [(''tmp'', Dir []), (''home'', Dir [(''proj'', exampleProject)])]"

definition emptyVault :: node where
  "emptyVault = Dir [(''vault'', Dir [(''.gitkeep'', File [])])]"

definition exampleWorld :: world where
  "exampleWorld = \<lparr> disk = exampleDisk, remote = Some emptyVault, gitHead = Dir [] \<rparr>"

definition brokenDisk :: node where
  "brokenDisk = Dir [(''p'', Dir [(''.agvault'', Dir [(''config.json'', File ''{oops'')])])]"

definition failingOperation :: "string list \<Rightarrow> world \<Rightarrow> (error + nat) \<times> world" where
  "failingOperation vaultPath w = (Inl (Error ''boom''), w)"

text \<open>The same project when the remote does not exist yet, the hosting CLI cannot be
  spawned and the push is refused.\<close>

definition offlineEnv :: env where
  "offlineEnv = exampleEnv\<lparr>ghAvailable := False, pushError := Some ''remote: Repository not found.''\<rparr>"

definition exampleFiles :: "VaultFile list" where
  "exampleFiles = [\<lparr> path = [''home'', ''proj'', ''README.md''], relativePath = ''README.md'' \<rparr>]"

definition bootstrappedWorld :: world where
  "bootstrappedWorld =
     \<lparr> disk = Dir [(''tmp'', Dir [(''agvault-1'', emptyVault)]), (''home'', Dir [(''proj'', exampleProject)])],
       remote = None, gitHead = emptyVault \<rparr>"

text \<open>The project before its first store, against a repository that has no branch yet
  and accepts the push; and the world after that store.\<close>

definition freshWorld :: world where
  "freshWorld = exampleWorld\<lparr>remote := None\<rparr>"

definition storedWorld :: world where
  "storedWorld = snd (storeToVault exampleEnv [''tmp'', ''agvault-1''] [''home'', ''proj''] freshWorld)"

text \<open>The example of the spec: \<open>a.md\<close>, \<open>b/c.md\<close> and \<open>b/c.txt\<close> under the single include
  pattern \<open>**/*.md\<close>; and a project whose only matches are two symbolic links.\<close>

definition mdEnv :: env where
  "mdEnv = \<lparr> jsonParse = (\<lambda>s. if s = ''{repoUrl: r, include: [**/*.md], exclude: []}''
                              then Inr (JFields (Some ''r'') (Some [''**/*.md'']) (Some []) None)
                              else Inl (Error ''Unexpected token'')),
             globSync = glob,
             ghAvailable = False, ghCreateOk = False, pushError = None \<rparr>"

definition mdDisk :: node where
  "mdDisk = Dir [(''w'', Dir [(''.agvault'', Dir [(''config.json'', File ''{repoUrl: r, include: [**/*.md], exclude: []}'')]),
                             (''a.md'', File ''A''),
                             (''b'', Dir [(''c.md'', File ''C''), (''c.txt'', File ''T'')])])]"

definition linkDisk :: node where
  "linkDisk = Dir [(''w'', Dir [(''.agvault'', Dir [(''config.json'', File ''{repoUrl: r, include: [**/*.md], exclude: []}'')]),
                               (''link.md'', Symlink (ToFile ''A'')),
                               (''gone.md'', Symlink Dangling)])]"

text \<open>A project whose one note has a name that begins with a backslash, which a POSIX
  filesystem allows; the world after its store; and that world with the note removed
  from the project.\<close>

definition backslashName :: string where
  "backslashName = CHR 0x5C # ''x.md''"

definition backslashProject :: node where
  "backslashProject =
     Dir [(''.agvault'', Dir [(''config.json'', File ''{repoUrl: https://github.com/alice/notes.git}'')]),
          (backslashName, File ''notes'')]"

definition backslashDisk :: node where
  "backslashDisk = Dir [(''tmp'', Dir []), (''home'', Dir [(''proj'', backslashProject)])]"

definition backslashWorld :: world where
  "backslashWorld = \<lparr> disk = backslashDisk, remote = Some emptyVault, gitHead = Dir [] \<rparr>"

definition backslashStored :: world where
  "backslashStored = snd (storeToVault exampleEnv [''tmp'', ''agvault-1''] [''home'', ''proj''] backslashWorld)"

definition backslashEmptied :: world where
  "backslashEmptied = backslashStored\<lparr>disk := rmSync (disk backslashStored) [''home'', ''proj'', backslashName]\<rparr>"

text \<open>A project whose one note has a name that, read with backslashes as separators,
  climbs out of the workspace and back into the project; and the world after its store.\<close>

definition climbingName :: string where
  "climbingName = ''..'' @ [CHR 0x5C] @ ''..'' @ [CHR 0x5C] @ ''..'' @ [CHR 0x5C] @ ''..'' @ [CHR 0x5C] @
                  ''home'' @ [CHR 0x5C] @ ''proj'' @ [CHR 0x5C] @ ''new.md''"

definition climbingDisk :: node where
  "climbingDisk = Dir [(''tmp'', Dir []),
     (''home'', Dir [(''proj'',
        Dir [(''.agvault'', Dir [(''config.json'', File ''{repoUrl: https://github.com/alice/notes.git}'')]),
             (climbingName, File ''notes'')])])]"

definition climbingWorld :: world where
  "climbingWorld = \<lparr> disk = climbingDisk, remote = Some emptyVault, gitHead = Dir [] \<rparr>"

definition climbingStored :: world where
  "climbingStored = snd (storeToVault exampleEnv [''tmp'', ''agvault-1''] [''home'', ''proj''] climbingWorld)"

text \<open>Two projects on one disk: the filesystem root itself, whose basename is empty, and
  \<open>/home/default\<close>.\<close>

definition rootDisk :: node where
  "rootDisk = Dir [(''.agvault'', Dir [(''config.json'', File ''{repoUrl: https://github.com/alice/notes.git}'')]),
                   (''a.md'', File ''A''),
                   (''tmp'', Dir []),
                   (''home'', Dir [(''default'', Dir [(''.agvault'', Dir [(''config.json'', File ''{repoUrl: https://github.com/alice/notes.git}'')])])])]"

definition rootWorld :: world where
  "rootWorld = \<lparr> disk = rootDisk, remote = Some emptyVault, gitHead = Dir [] \<rparr>"

text \<open>Two projects \<open>/home/proj\<close> and \<open>/home/other\<close> that share a vault in which \<open>other\<close>
  has stored one file.\<close>

definition sharedDisk :: node where
  "sharedDisk = Dir [(''tmp'', Dir []),
     (''home'', Dir [(''proj'', exampleProject),
                    (''other'', Dir [(''.agvault'', Dir [(''config.json'', File ''{repoUrl: https://github.com/alice/notes.git}'')])])])]"

definition sharedWorld :: world where
  "sharedWorld = \<lparr> disk = sharedDisk,
                    remote = Some (Dir [(''vault'', Dir [(''other'', Dir [(''o.md'', File ''O'')])])]),
                    gitHead = Dir [] \<rparr>"

text \<open>A project with two include patterns, \<open>b/**\<close> before \<open>**/*.md\<close>, whose matches
  overlap in \<open>b/c.md\<close>.\<close>

definition orderEnv :: env where
  "orderEnv = \<lparr> jsonParse = (\<lambda>s. if s = ''{repoUrl: r, include: [b/**, **/*.md], exclude: []}''
                                 then Inr (JFields (Some ''r'') (Some [''b/**'', ''**/*.md'']) (Some []) None)
                                 else Inl (Error ''Unexpected token'')),
                globSync = glob,
                ghAvailable = False, ghCreateOk = False, pushError = None \<rparr>"

definition orderDisk :: node where
  "orderDisk = Dir [(''w'', Dir [(''.agvault'', Dir [(''config.json'', File ''{repoUrl: r, include: [b/**, **/*.md], exclude: []}'')]),
                                (''a.md'', File ''A''),
                                (''b'', Dir [(''c.md'', File ''C''), (''c.txt'', File ''T'')])])]"

text \<open>Two projects \<open>/home/proj\<close> and \<open>/home/other\<close> that share a vault in which \<open>other\<close>
  has stored \<open>o.md\<close>; \<open>proj\<close> holds one note whose name, read with backslashes as
  separators, is \<open>../other/o.md\<close>.\<close>

definition intrudingName :: string where
  "intrudingName = ''..'' @ [CHR 0x5C] @ ''other'' @ [CHR 0x5C] @ ''o.md''"

definition intrudingDisk :: node where
  "intrudingDisk = Dir [(''tmp'', Dir []),
     (''home'', Dir [(''proj'',
                      Dir [(''.agvault'', Dir [(''config.json'', File ''{repoUrl: https://github.com/alice/notes.git}'')]),
                           (intrudingName, File ''EVIL'')]),
                    (''other'', Dir [(''.agvault'', Dir [(''config.json'', File ''{repoUrl: https://github.com/alice/notes.git}'')])])])]"

definition intrudingWorld :: world where
  "intrudingWorld = \<lparr> disk = intrudingDisk,
                       remote = Some (Dir [(''vault'', Dir [(''other'', Dir [(''o.md'', File ''O'')])])]),
                       gitHead = Dir [] \<rparr>"

definition intrudingStored :: world where
  "intrudingStored = snd (storeToVault exampleEnv [''tmp'', ''agvault-1''] [''home'', ''proj''] intrudingWorld)"

section \<open>Verified properties\<close>

subsection \<open>Removing a directory takes everything below it\<close>

lemma lookup_rmSync_self: "t \<noteq> [] \<Longrightarrow> lookup (rmSync fs t) t = None"
proof (induction fs t rule: rmSync.induct)
  case (2 es s ss)
  then show ?case
    by (auto simp: delete_conv' update_conv' split: option.splits)
qed auto

lemma delete_append_fresh: "map_of es k = None \<Longrightarrow> AList.delete k (es @ [(k, v)]) = es"
  by (induction es) (auto split: if_splits)

lemma map_of_append_fresh: "map_of es k = None \<Longrightarrow> map_of (es @ [(k, v)]) k = Some v"
  by (induction es) (auto split: if_splits)

lemma rmSync_setNode_below:
  "p \<noteq> [] \<Longrightarrow> lookup fs p \<noteq> None \<Longrightarrow> rmSync (setNode fs (p @ q) n) p = rmSync fs p"
proof (induction p arbitrary: fs)
  case Nil then show ?case by simp
next
  case (Cons s ss)
  show ?case
  proof (cases fs)
    case (Dir es)
    with Cons.prems obtain c where c: "map_of es s = Some c" "lookup c ss \<noteq> None"
      by (auto split: option.splits)
    show ?thesis
    proof (cases "ss = []")
      case True
      then show ?thesis using Dir c by (simp add: delete_update_same)
    next
      case False
      then show ?thesis using Dir c Cons.IH[OF False c(2)] by (simp add: update_conv')
    qed
  qed (use Cons.prems in auto)
qed

lemma rmSync_mkdirSync_below:
  "p \<noteq> [] \<Longrightarrow> lookup fs p \<noteq> None \<Longrightarrow> mkdirSync fs (p @ q) = Inr fs' \<Longrightarrow>
     rmSync fs' p = rmSync fs p \<and> lookup fs' p \<noteq> None"
proof (induction p arbitrary: fs fs')
  case Nil then show ?case by simp
next
  case (Cons s ss)
  show ?case
  proof (cases fs)
    case (Dir es)
    with Cons.prems obtain c where c: "map_of es s = Some c" "lookup c ss \<noteq> None"
      by (auto split: option.splits)
    from Cons.prems(3) Dir c obtain c'
      where c': "mkdirSync c (ss @ q) = Inr c'" "fs' = Dir (AList.update s c' es)"
      by (auto split: sum.splits)
    show ?thesis
    proof (cases "ss = []")
      case True
      then show ?thesis using Dir c c' by (simp add: delete_update_same update_conv')
    next
      case False
      then show ?thesis using Dir c c' Cons.IH[OF False c(2) c'(1)] by (simp add: update_conv')
    qed
  qed (use Cons.prems in auto)
qed

lemma rmSync_place_below:
  "p \<noteq> [] \<Longrightarrow> lookup fs p \<noteq> None \<Longrightarrow> place fs (p @ q) leaf = Inr fs' \<Longrightarrow>
     rmSync fs' p = rmSync fs p \<and> (q \<noteq> [] \<longrightarrow> lookup fs' p \<noteq> None)"
proof (induction p arbitrary: fs fs')
  case Nil then show ?case by simp
next
  case (Cons s ss)
  show ?case
  proof (cases fs)
    case (Dir es)
    with Cons.prems obtain c where c: "map_of es s = Some c" "lookup c ss \<noteq> None"
      by (auto split: option.splits)
    from Cons.prems(3) Dir c obtain c'
      where c': "place c (ss @ q) leaf = Inr c'" "fs' = Dir (AList.update s c' es)"
      by (auto split: sum.splits)
    show ?thesis
    proof (cases "ss = []")
      case True
      then show ?thesis using Dir c c' by (simp add: delete_update_same update_conv')
    next
      case False
      then show ?thesis using Dir c c' Cons.IH[OF False c(2) c'(1)] by (simp add: update_conv')
    qed
  qed (use Cons.prems in auto)
qed


lemma mkdtempSync_rmSync:
  "mkdtempSync fs t = Inr fs1 \<Longrightarrow> rmSync fs1 t = fs \<and> lookup fs1 t = Some (Dir []) \<and> t \<noteq> []"
proof (induction t arbitrary: fs fs1)
  case Nil then show ?case by (simp add: mkdtempSync_def)
next
  case (Cons s ss)
  show ?case
  proof (cases fs)
    case (Dir es)
    show ?thesis
    proof (cases "ss = []")
      case True
      then show ?thesis using Dir Cons.prems
        by (auto simp: mkdtempSync_def delete_append_fresh map_of_append_fresh
                 split: if_splits option.splits)
    next
      case False
      with Cons.prems Dir obtain c where c: "map_of es s = Some c"
        by (auto simp: mkdtempSync_def split: if_splits option.splits node.splits)
      have "mkdtempSync c ss = Inr (case mkdirSync c ss of Inr x \<Rightarrow> x)"
           "fs1 = Dir (AList.update s (case mkdirSync c ss of Inr x \<Rightarrow> x) es)"
        using Cons.prems Dir c False
        by (auto simp: mkdtempSync_def butlast_def split: if_splits option.splits node.splits sum.splits)
      then show ?thesis using Cons.IH[of c] Dir c False
        by (auto simp: update_conv' update_triv)
    qed
  qed (use Cons.prems in \<open>auto simp: mkdtempSync_def split: if_splits option.splits node.splits\<close>)
qed


subsection \<open>The scenario, evaluated\<close>

lemma example_loadConfig:
  "loadConfig exampleEnv exampleDisk [''home'', ''proj''] = Inr (Some exampleConfig)"
  by (simp add: loadConfig_def exampleEnv_def exampleDisk_def exampleProject_def exampleConfig_def
        getConfigPath_def existsSync_def readFileSync_def orElse_def)

lemma example_mkdtemp:
  "mkdtempSync exampleDisk [''tmp'', ''agvault-1''] =
     Inr (Dir [(''tmp'', Dir [(''agvault-1'', Dir [])]), (''home'', Dir [(''proj'', exampleProject)])])"
  by (simp add: mkdtempSync_def exampleDisk_def)

lemma example_openSession:
  "openSession exampleEnv exampleConfig [''tmp'', ''agvault-1''] exampleWorld =
     Inr \<lparr> disk = Dir [(''tmp'', Dir [(''agvault-1'', emptyVault)]), (''home'', Dir [(''proj'', exampleProject)])],
           remote = Some emptyVault, gitHead = emptyVault \<rparr>"
  by (simp add: openSession_def example_mkdtemp exampleWorld_def gitClone_def Let_def ensureGhGitAuth_def)

lemma example_collectFiles: "collectFiles exampleEnv exampleDisk [''home'', ''proj''] = Inr exampleFiles"
  by code_simp

lemma example_bootstrap:
  "openSession offlineEnv exampleConfig [''tmp'', ''agvault-1''] (exampleWorld\<lparr>remote := None\<rparr>) = Inr bootstrappedWorld"
  by code_simp

subsection \<open>Substrings\<close>

lemma startsWith_iff: "startsWith x s \<longleftrightarrow> (\<exists>b. x = s @ b)"
  by (induction x s rule: startsWith.induct) auto





subsection \<open>Paths of well-formed trees\<close>

lemma splitOn_no_sep: "sep \<notin> set s \<Longrightarrow> splitOn sep s = [s]"
  by (induction s) (auto split: list.splits)

lemma splitOn_append_sep: "sep \<notin> set a \<Longrightarrow> splitOn sep (a @ sep # b) = a # splitOn sep b"
  by (induction a) (auto split: list.splits)

lemma splitOn_joinStr:
  "p \<noteq> [] \<Longrightarrow> list_all validName p \<Longrightarrow> splitOn CHR ''/'' (joinStr p) = p"
proof (induction p rule: joinStr.induct)
  case 1 then show ?case by simp
next
  case (2 x) then show ?case by (simp add: validName_def splitOn_no_sep)
next
  case (3 x y ys)
  then show ?case by (simp add: validName_def splitOn_append_sep)
qed

lemma normalize_valid: "list_all validName p \<Longrightarrow> normalize acc p = rev acc @ p"
  by (induction p arbitrary: acc) (auto simp: validName_def)

lemma joinRel_joinStr: "list_all validName p \<Longrightarrow> joinRel base (joinStr p) = base @ p"
proof (cases "p = []")
  case True then show ?thesis by (simp add: joinRel_def)
next
  case False
  assume "list_all validName p"
  with False show ?thesis by (simp add: joinRel_def splitOn_joinStr normalize_valid)
qed

lemma lookup_append:
  "lookup fs (a @ b) = (case lookup fs a of None \<Rightarrow> None | Some n \<Rightarrow> lookup n b)"
proof (induction a arbitrary: fs)
  case Nil then show ?case by simp
next
  case (Cons s ss)
  then show ?case by (cases fs) (auto split: option.splits)
qed

lemma flatten_keys:
  "(p, n) \<in> set (flatten t) \<Longrightarrow> isDirectory t \<Longrightarrow> p \<noteq> []"
  "(p, n) \<in> set (flattenIn es) \<Longrightarrow> p \<noteq> [] \<and> hd p \<in> fst ` set es"
  by (induction t and es arbitrary: p n and p n rule: flatten_flattenIn.induct) (auto simp: image_iff)

lemma flatten_lookup:
  "wfNode t \<Longrightarrow> (p, n) \<in> set (flatten t) \<Longrightarrow>
     lookup t p = Some n \<and> \<not> isDirectory n \<and> list_all validName p"
  "wfEntries es \<Longrightarrow> (p, n) \<in> set (flattenIn es) \<Longrightarrow>
     lookup (Dir es) p = Some n \<and> \<not> isDirectory n \<and> list_all validName p"
proof (induction t and es arbitrary: p n and p n rule: flatten_flattenIn.induct)
  case (5 k c es)
  from "5.prems"(2) consider q where "p = k # q" "(q, n) \<in> set (flatten c)" | "(p, n) \<in> set (flattenIn es)" by auto
  then show ?case
  proof cases
    case 1
    with 5 show ?thesis by auto
  next
    case 2
    with flatten_keys(2)[OF 2] "5.prems" have k: "hd p \<noteq> k" "p \<noteq> []" by auto
    from "5.prems" have "wfEntries es" by simp
    from "5.IH"(2)[OF this 2] k show ?thesis by (cases p) auto
  qed
qed auto

subsection \<open>The loops of \<open>collectFiles\<close>\<close>

lemma remdups_snoc: "remdups (zs @ [x]) = remdups (filter (\<lambda>y. y \<noteq> x) zs) @ [x]"
  by (induction zs) auto

lemma firstOccurrences_Cons:
  "firstOccurrences (x # ys) = x # firstOccurrences (filter (\<lambda>y. y \<noteq> x) ys)"
  by (simp add: firstOccurrences_def remdups_snoc rev_filter)

lemma foldl_insertSeen:
  "distinct acc \<Longrightarrow> foldl insertSeen acc xs = acc @ firstOccurrences (filter (\<lambda>x. x \<notin> set acc) xs)"
proof (induction xs arbitrary: acc)
  case Nil then show ?case by (simp add: firstOccurrences_def)
next
  case (Cons x xs)
  show ?case
  proof (cases "x \<in> set acc")
    case True
    then show ?thesis using Cons by (simp add: insertSeen_def)
  next
    case False
    then have "foldl insertSeen acc (x # xs) = foldl insertSeen (acc @ [x]) xs" by (simp add: insertSeen_def)
    also have "\<dots> = (acc @ [x]) @ firstOccurrences (filter (\<lambda>y. y \<notin> set (acc @ [x])) xs)"
      using Cons.prems False by (intro Cons.IH) simp
    also have "filter (\<lambda>y. y \<notin> set (acc @ [x])) xs = filter (\<lambda>y. y \<noteq> x) (filter (\<lambda>y. y \<notin> set acc) xs)"
      by (auto intro: filter_cong)
    finally show ?thesis using False by (simp add: firstOccurrences_Cons)
  qed
qed

lemma collectMatches_inv:
  "collectMatches fs cwd files (map (vaultFileAt cwd) (filter (\<lambda>a. statIsFile fs a = Inr True) seen), seen) =
     (let seen' = foldl insertSeen seen (map (joinRel cwd) files)
      in (map (vaultFileAt cwd) (filter (\<lambda>a. statIsFile fs a = Inr True) seen'), seen'))"
proof (induction files arbitrary: seen)
  case Nil then show ?case by simp
next
  case (Cons f files)
  show ?case
  proof (cases "joinRel cwd f \<in> set seen")
    case True
    then show ?thesis using Cons[of seen] by (simp add: insertSeen_def Let_def)
  next
    case False
    show ?thesis
    proof (cases "statIsFile fs (joinRel cwd f) = Inr True")
      case True
      then show ?thesis using False Cons[of "seen @ [joinRel cwd f]"]
        by (simp add: insertSeen_def Let_def vaultFileAt_def)
    next
      case F2: False
      then show ?thesis using False Cons[of "seen @ [joinRel cwd f]"]
        by (auto simp: insertSeen_def Let_def split: sum.splits bool.splits)
    qed
  qed
qed

lemma collectPatterns_inv:
  "collectPatterns e fs cwd ignore pats (map (vaultFileAt cwd) (filter (\<lambda>a. statIsFile fs a = Inr True) seen), seen) =
     (let seen' = foldl insertSeen seen (concat (map (\<lambda>pat. map (joinRel cwd) (globSync e pat cwd ignore fs)) pats))
      in (map (vaultFileAt cwd) (filter (\<lambda>a. statIsFile fs a = Inr True) seen'), seen'))"
proof (induction pats arbitrary: seen)
  case Nil then show ?case by simp
next
  case (Cons pat pats)
  show ?case
    by (simp add: collectMatches_inv Let_def Cons)
qed

lemma filter_firstOccurrences: "filter P (firstOccurrences xs) = firstOccurrences (filter P xs)"
  by (simp add: firstOccurrences_def rev_filter remdups_filter)

lemma collectFiles_eq:
  assumes "loadConfig e fs cwd = Inr (Some config)"
  shows "collectFiles e fs cwd =
     Inr (map (vaultFileAt cwd)
            (firstOccurrences
               (filter (\<lambda>a. statIsFile fs a = Inr True)
                  (concat (map (\<lambda>pat. map (joinRel cwd) (globSync e pat cwd (excludeGlobs config) fs))
                     (includeGlobs config))))))"
  using collectPatterns_inv[of e fs cwd "excludeGlobs config" "includeGlobs config" "[]"] assms
  by (simp add: collectFiles_def Let_def foldl_insertSeen filter_firstOccurrences)

lemma statIsFile_followsToFile:
  "lookup fs a = Some n \<Longrightarrow> (statIsFile fs a = Inr True) = followsToFile n"
  by (auto simp: statIsFile_def followsToFile_def split: node.splits target.splits)

lemma statIsFile_True:
  "statIsFile fs a = Inr True \<Longrightarrow> \<exists>n. lookup fs a = Some n \<and> followsToFile n"
  by (auto simp: statIsFile_def followsToFile_def split: option.splits node.splits target.splits)

lemma set_firstOccurrences: "set (firstOccurrences xs) = set xs"
  by (simp add: firstOccurrences_def)

lemma distinct_firstOccurrences: "distinct (firstOccurrences xs)"
  by (simp add: firstOccurrences_def)

subsection \<open>What an operation at one path leaves alone at another\<close>

lemma startsWith_append [simp]: "startsWith (a @ b) a"
  by (simp add: startsWith_iff)

lemma startsWith_Nil [simp]: "startsWith [] q = (q = [])"
  by (cases q) auto

lemma lookup_mkdirs: "lookup (mkdirs ss) qs = (if startsWith ss qs then Some (mkdirs (drop (length qs) ss)) else None)"
proof (induction ss arbitrary: qs)
  case Nil then show ?case by (cases qs) auto
next
  case (Cons s ss) then show ?case by (cases qs) auto
qed

lemma lookup_leaf: "\<not> isDirectory n \<Longrightarrow> lookup n q = (if q = [] then Some n else None)"
  by (cases n; cases q) auto

lemma map_of_append_other: "k \<noteq> s \<Longrightarrow> map_of (es @ [(s, v)]) k = map_of es k"
  by (induction es) auto

lemma lookup_mkdirSync_other:
  "mkdirSync fs p = Inr fs' \<Longrightarrow> \<not> startsWith p q \<Longrightarrow> lookup fs' q = lookup fs q"
proof (induction fs p arbitrary: fs' q rule: mkdirSync.induct)
  case (3 es s ss)
  from "3.prems"(2) obtain t qs where q: "q = t # qs" by (cases q) auto
  show ?case
  proof (cases "map_of es s")
    case None
    with "3.prems" have fs': "fs' = Dir (es @ [(s, mkdirs ss)])" by simp
    show ?thesis
    proof (cases "t = s")
      case True
      with "3.prems"(2) q have "\<not> startsWith ss qs" by simp
      then show ?thesis using fs' q True None by (simp add: map_add_def lookup_mkdirs)
    next
      case False
      then show ?thesis using fs' q by (auto simp: map_add_def split: option.splits)
    qed
  next
    case (Some c)
    with "3.prems" obtain c' where c': "mkdirSync c ss = Inr c'" "fs' = Dir (AList.update s c' es)"
      by (auto split: sum.splits)
    show ?thesis
    proof (cases "t = s")
      case True
      with "3.prems"(2) q have "\<not> startsWith ss qs" by simp
      from "3.IH"[OF Some c'(1) this] show ?thesis using c' q True Some by (simp add: update_conv')
    next
      case False
      then show ?thesis using c' q by (simp add: update_conv')
    qed
  qed
qed auto

lemma lookup_place_other:
  "place fs p leaf = Inr fs' \<Longrightarrow> \<not> isDirectory leaf \<Longrightarrow> \<not> startsWith p q \<Longrightarrow> lookup fs' q = lookup fs q"
proof (induction fs p leaf arbitrary: fs' q rule: place.induct)
  case (3 es s ss leaf)
  from "3.prems"(3) obtain t qs where q: "q = t # qs" by (cases q) auto
  show ?case
  proof (cases "map_of es s")
    case None
    with "3.prems" have fs': "fs' = Dir (es @ [(s, leaf)])" "ss = []" by (auto split: if_splits)
    show ?thesis
    proof (cases "t = s")
      case True
      with "3.prems"(3) q fs' have "qs \<noteq> []" by auto
      then show ?thesis using fs' q True None "3.prems"(2) by (simp add: map_add_def lookup_leaf)
    next
      case False
      then show ?thesis using fs' q by (auto simp: map_add_def split: option.splits)
    qed
  next
    case (Some c)
    with "3.prems" obtain c' where c': "place c ss leaf = Inr c'" "fs' = Dir (AList.update s c' es)"
      by (auto split: sum.splits)
    show ?thesis
    proof (cases "t = s")
      case True
      with "3.prems"(3) q have "\<not> startsWith ss qs" by simp
      from "3.IH"[OF Some c'(1) "3.prems"(2) this] show ?thesis using c' q True Some by (simp add: update_conv')
    next
      case False
      then show ?thesis using c' q by (simp add: update_conv')
    qed
  qed
qed (auto simp: lookup_leaf)

lemma lookup_rmSync_other:
  "\<not> startsWith p q \<Longrightarrow> \<not> startsWith q p \<Longrightarrow> lookup (rmSync fs p) q = lookup fs q"
proof (induction fs p arbitrary: q rule: rmSync.induct)
  case (2 es s ss)
  from "2.prems" obtain t qs where q: "q = t # qs" by (cases q) auto
  show ?case
  proof (cases "t = s")
    case True
    with "2.prems" q have ss: "ss \<noteq> []" "\<not> startsWith ss qs" "\<not> startsWith qs ss" by auto
    show ?thesis
    proof (cases "map_of es s")
      case None then show ?thesis using ss by simp
    next
      case (Some c)
      from "2.IH"[OF ss(1) Some ss(2,3)] show ?thesis using ss q True Some by (simp add: update_conv')
    qed
  next
    case False
    then show ?thesis using q by (auto simp: update_conv' delete_conv' split: option.splits)
  qed
qed auto

lemma lookup_setNode_other:
  "\<not> startsWith p q \<Longrightarrow> \<not> startsWith q p \<Longrightarrow> lookup (setNode fs p n) q = lookup fs q"
proof (induction fs p n arbitrary: q rule: setNode.induct)
  case (2 es s ss new)
  from "2.prems" obtain t qs where q: "q = t # qs" by (cases q) auto
  show ?case
  proof (cases "t = s")
    case True
    with "2.prems" q have ss: "\<not> startsWith ss qs" "\<not> startsWith qs ss" by auto
    show ?thesis
    proof (cases "map_of es s")
      case None then show ?thesis by simp
    next
      case (Some c)
      from "2.IH"[OF Some ss] show ?thesis using q True Some by (simp add: update_conv')
    qed
  next
    case False
    then show ?thesis using q by (auto simp: update_conv' split: option.splits)
  qed
qed auto

lemma lookup_setNode_below:
  "lookup fs p \<noteq> None \<Longrightarrow> lookup (setNode fs p n) (p @ q) = lookup n q"
proof (induction p arbitrary: fs)
  case Nil then show ?case by simp
next
  case (Cons s ss)
  then show ?case by (cases fs) (auto simp: update_conv' split: option.splits)
qed

lemma leafAt_mkdirs: "leafAt (mkdirs ss) qs = None"
  by (simp add: leafAt_def lookup_mkdirs) (metis isDirectory.simps(1) mkdirs.elims)

lemma leafAt_Nil_Dir [simp]: "leafAt (Dir es) [] = None"
  by (simp add: leafAt_def)

lemma leafAt_Cons:
  "leafAt (Dir es) (t # qs) = (case map_of es t of None \<Rightarrow> None | Some c \<Rightarrow> leafAt c qs)"
  by (simp add: leafAt_def split: option.splits)

lemma leafAt_mkdirSync:
  "mkdirSync fs p = Inr fs' \<Longrightarrow> leafAt fs' q = leafAt fs q"
proof (induction fs p arbitrary: fs' q rule: mkdirSync.induct)
  case (3 es s ss)
  show ?case
  proof (cases q)
    case Nil
    with "3.prems" show ?thesis by (auto split: option.splits sum.splits)
  next
    case (Cons t qs)
    show ?thesis
    proof (cases "map_of es s")
      case None
      with "3.prems" have fs': "fs' = Dir (es @ [(s, mkdirs ss)])" by simp
      show ?thesis unfolding Cons fs' leafAt_Cons using None
        by (auto simp: map_add_def leafAt_mkdirs split: option.splits)
    next
      case (Some c)
      with "3.prems" obtain c' where c': "mkdirSync c ss = Inr c'" "fs' = Dir (AList.update s c' es)"
        by (auto split: sum.splits)
      from "3.IH"[OF Some c'(1)] show ?thesis unfolding Cons c'(2) leafAt_Cons using Some
        by (auto simp: update_conv')
    qed
  qed
qed auto

lemma leafAt_leaf: "\<not> isDirectory n \<Longrightarrow> leafAt n q = (if q = [] then Some n else None)"
  by (simp add: leafAt_def lookup_leaf)

lemma leafAt_place:
  "place fs p leaf = Inr fs' \<Longrightarrow> \<not> isDirectory leaf \<Longrightarrow> q \<noteq> p \<Longrightarrow> leafAt fs' q = leafAt fs q"
proof (induction fs p leaf arbitrary: fs' q rule: place.induct)
  case (3 es s ss leaf)
  show ?case
  proof (cases q)
    case Nil
    with "3.prems" show ?thesis by (auto split: option.splits sum.splits if_splits)
  next
    case (Cons t qs)
    show ?thesis
    proof (cases "map_of es s")
      case None
      with "3.prems" have fs': "fs' = Dir (es @ [(s, leaf)])" "ss = []" by (auto split: if_splits)
      show ?thesis unfolding Cons fs' leafAt_Cons using None "3.prems"(2,3) Cons fs'(2)
        by (auto simp: map_add_def leafAt_leaf split: option.splits)
    next
      case (Some c)
      with "3.prems" obtain c' where c': "place c ss leaf = Inr c'" "fs' = Dir (AList.update s c' es)"
        by (auto split: sum.splits)
      show ?thesis
      proof (cases "t = s")
        case True
        with "3.prems"(3) Cons have "qs \<noteq> ss" by simp
        from "3.IH"[OF Some c'(1) "3.prems"(2) this] show ?thesis
          unfolding Cons c'(2) leafAt_Cons using Some True by (simp add: update_conv')
      next
        case False
        then show ?thesis unfolding Cons c'(2) leafAt_Cons by (simp add: update_conv')
      qed
    qed
  qed
qed (auto simp: leafAt_leaf)

lemma normalize_noclimb:
  "''..'' \<notin> set segs \<Longrightarrow> normalize acc segs = rev acc @ filter (\<lambda>s. s \<noteq> [] \<and> s \<noteq> ''.'') segs"
  by (induction segs arbitrary: acc) auto

lemma joinRel_noclimb:
  "''..'' \<notin> set (splitOn CHR ''/'' rel) \<Longrightarrow>
     joinRel base rel = base @ filter (\<lambda>s. s \<noteq> [] \<and> s \<noteq> ''.'') (splitOn CHR ''/'' rel)"
  by (simp add: joinRel_def normalize_noclimb)

lemma startsWith_longer: "startsWith q (a @ b) \<Longrightarrow> startsWith q a"
  by (auto simp: startsWith_iff)

lemma leafAt_cpSync:
  "cpSync fs src dest = Inr fs' \<Longrightarrow> q \<noteq> dest \<Longrightarrow> leafAt fs' q = leafAt fs q"
  by (auto simp: cpSync_def split: option.splits node.splits intro: leafAt_place)

lemma copyToVault_confined:
  assumes "\<forall>f \<in> set files. ''..'' \<notin> set (splitOn CHR ''/'' (relativePath f))"
    and "\<not> startsWith q (workspaceRoot vaultPath cwd)"
  shows "leafAt (snd (copyToVault files vaultPath cwd fs)) q = leafAt fs q"
  using assms(1)
proof (induction files arbitrary: fs)
  case Nil then show ?case by simp
next
  case (Cons f files)
  let ?dest = "joinRel (workspaceRoot vaultPath cwd) (relativePath f)"
  from Cons.prems have "startsWith ?dest (workspaceRoot vaultPath cwd)"
    by (simp add: joinRel_noclimb)
  with assms(2) have ne: "q \<noteq> ?dest" by auto
  show ?case
  proof (cases "if \<not> existsSync fs (dirname ?dest) then mkdirSync fs (dirname ?dest) else Inr fs")
    case (Inl err) then show ?thesis by (simp add: Let_def)
  next
    case (Inr fs1)
    then have 1: "leafAt fs1 q = leafAt fs q" by (auto split: if_splits simp: leafAt_mkdirSync)
    show ?thesis
    proof (cases "cpSync fs1 (path f) ?dest")
      case (Inl err) then show ?thesis using Inr 1 by (simp add: Let_def)
    next
      case r: (Inr fs2)
      from leafAt_cpSync[OF r ne] 1 Cons.IH[of fs2] Cons.prems
      show ?thesis using Inr r by (simp add: Let_def)
    qed
  qed
qed

lemma uniqueNamesIn_iff:
  "uniqueNamesIn es \<longleftrightarrow> distinct (map fst es) \<and> (\<forall>e \<in> set es. uniqueNames (snd e))"
  by (induction es) (fastforce simp: image_iff)+

lemma wf_uniqueNames:
  "wfNode t \<Longrightarrow> uniqueNames t"
  "wfEntries es \<Longrightarrow> uniqueNamesIn es"
  by (induction t and es rule: wfNode_wfEntries.induct) auto

lemma set_update_subset: "set (AList.update k c es) \<subseteq> insert (k, c) (set es)"
  by (induction es) auto

lemma uniqueNamesIn_update:
  "uniqueNamesIn es \<Longrightarrow> uniqueNames c \<Longrightarrow> uniqueNamesIn (AList.update k c es)"
  unfolding uniqueNamesIn_iff using set_update_subset[of k c es]
  by (auto simp: distinct_update)

lemma uniqueNamesIn_delete:
  "uniqueNamesIn es \<Longrightarrow> uniqueNamesIn (AList.delete k es)"
  unfolding uniqueNamesIn_iff using distinct_delete[of es k] by (auto simp: AList.delete_eq)

lemma uniqueNamesIn_append:
  "uniqueNamesIn es \<Longrightarrow> map_of es k = None \<Longrightarrow> uniqueNames c \<Longrightarrow> uniqueNamesIn (es @ [(k, c)])"
  unfolding uniqueNamesIn_iff by (auto simp: map_of_eq_None_iff)

lemma uniqueNamesIn_map_of:
  "uniqueNamesIn es \<Longrightarrow> map_of es k = Some c \<Longrightarrow> uniqueNames c"
  unfolding uniqueNamesIn_iff by (auto dest: map_of_SomeD)

lemma uniqueNames_mkdirs: "uniqueNames (mkdirs ss)"
  by (induction ss) auto

lemma uniqueNames_lookup: "uniqueNames fs \<Longrightarrow> lookup fs p = Some n \<Longrightarrow> uniqueNames n"
proof (induction fs p rule: lookup.induct)
  case (2 es s ss)
  then show ?case by (auto split: option.splits dest: uniqueNamesIn_map_of)
qed auto

lemma uniqueNames_mkdirSync: "uniqueNames fs \<Longrightarrow> mkdirSync fs p = Inr fs' \<Longrightarrow> uniqueNames fs'"
proof (induction fs p arbitrary: fs' rule: mkdirSync.induct)
  case (3 es s ss)
  show ?case
  proof (cases "map_of es s")
    case None
    with "3.prems" show ?thesis by (auto intro!: uniqueNamesIn_append uniqueNames_mkdirs)
  next
    case (Some c)
    with "3.prems" obtain c' where c': "mkdirSync c ss = Inr c'" "fs' = Dir (AList.update s c' es)"
      by (auto split: sum.splits)
    from "3.prems" Some have "uniqueNames c" by (auto dest: uniqueNamesIn_map_of)
    from "3.IH"[OF Some this c'(1)] "3.prems" c' show ?thesis by (auto intro!: uniqueNamesIn_update)
  qed
qed auto

lemma uniqueNames_place:
  "uniqueNames fs \<Longrightarrow> uniqueNames leaf \<Longrightarrow> place fs p leaf = Inr fs' \<Longrightarrow> uniqueNames fs'"
proof (induction fs p leaf arbitrary: fs' rule: place.induct)
  case (3 es s ss leaf)
  show ?case
  proof (cases "map_of es s")
    case None
    with "3.prems" show ?thesis by (auto intro!: uniqueNamesIn_append split: if_splits)
  next
    case (Some c)
    with "3.prems" obtain c' where c': "place c ss leaf = Inr c'" "fs' = Dir (AList.update s c' es)"
      by (auto split: sum.splits)
    from "3.prems" Some have "uniqueNames c" by (auto dest: uniqueNamesIn_map_of)
    from "3.IH"[OF Some this "3.prems"(2) c'(1)] "3.prems" c' show ?thesis by (auto intro!: uniqueNamesIn_update)
  qed
qed auto

lemma uniqueNames_rmSync: "uniqueNames fs \<Longrightarrow> uniqueNames (rmSync fs p)"
proof (induction fs p rule: rmSync.induct)
  case (2 es s ss)
  show ?case
  proof (cases "ss = []")
    case True
    with "2.prems" show ?thesis by (auto intro!: uniqueNamesIn_delete)
  next
    case False
    show ?thesis
    proof (cases "map_of es s")
      case None with False "2.prems" show ?thesis by simp
    next
      case (Some c)
      from "2.prems" Some have "uniqueNames c" by (auto dest: uniqueNamesIn_map_of)
      from "2.IH"[OF False Some this] "2.prems" False Some show ?thesis by (auto intro!: uniqueNamesIn_update)
    qed
  qed
qed auto

lemma uniqueNames_setNode: "uniqueNames fs \<Longrightarrow> uniqueNames n \<Longrightarrow> uniqueNames (setNode fs p n)"
proof (induction fs p n rule: setNode.induct)
  case (2 es s ss new)
  show ?case
  proof (cases "map_of es s")
    case None with "2.prems" show ?thesis by simp
  next
    case (Some c)
    from "2.prems" Some have "uniqueNames c" by (auto dest: uniqueNamesIn_map_of)
    from "2.IH"[OF Some this "2.prems"(2)] "2.prems" Some show ?thesis by (auto intro!: uniqueNamesIn_update)
  qed
qed auto

lemma uniqueNames_removeEmptyDirs:
  "uniqueNames t \<Longrightarrow> removeEmptyDirs t = Some t' \<Longrightarrow> uniqueNames t'"
  "uniqueNamesIn es \<Longrightarrow> uniqueNamesIn (removeEmptyDirsIn es) \<and> fst ` set (removeEmptyDirsIn es) \<subseteq> fst ` set es"
proof (induction t and es arbitrary: t' rule: removeEmptyDirs_removeEmptyDirsIn.induct)
  case (1 es)
  then show ?case by (auto simp: Let_def split: if_splits)
next
  case (5 k c es)
  then show ?case by (auto split: option.splits) 
qed auto

lemma map_of_removeEmptyDirsIn:
  "uniqueNamesIn es \<Longrightarrow>
     map_of (removeEmptyDirsIn es) k = (case map_of es k of None \<Rightarrow> None | Some c \<Rightarrow> removeEmptyDirs c)"
proof (induction es)
  case Nil then show ?case by simp
next
  case (Cons e es)
  obtain k' c where e: "e = (k', c)" by (cases e)
  from Cons.prems e have u: "k' \<notin> fst ` set es" "uniqueNamesIn es" by auto
  from uniqueNames_removeEmptyDirs(2)[OF u(2)] u(1) have nk: "k' \<notin> fst ` set (removeEmptyDirsIn es)" by auto
  show ?case
  proof (cases "k = k'")
    case True
    have "map_of (removeEmptyDirsIn es) k' = None" using nk by (simp add: map_of_eq_None_iff)
    then show ?thesis using True e by (cases c) (auto split: option.splits)
  next
    case False
    then show ?thesis using e Cons.IH[OF u(2)] by (auto split: option.splits)
  qed
qed

lemma gitTree_Dir: "gitTree (Dir es) = Dir (removeEmptyDirsIn es)"
  by (simp add: gitTree_def Let_def)

lemma removeEmptyDirs_Some_gitTree: "removeEmptyDirs c = Some c' \<Longrightarrow> gitTree c = c'"
  by (simp add: gitTree_def)

lemma lookup_gitTree:
  "uniqueNames X \<Longrightarrow> q \<noteq> [] \<Longrightarrow>
     lookup (gitTree X) q = (case lookup X q of None \<Rightarrow> None | Some n \<Rightarrow> removeEmptyDirs n)"
proof (induction q arbitrary: X)
  case Nil then show ?case by simp
next
  case (Cons k qs)
  show ?case
  proof (cases X)
    case (Dir es)
    with Cons.prems have u: "uniqueNamesIn es" by simp
    show ?thesis
    proof (cases "map_of es k")
      case None
      then show ?thesis using Dir u by (simp add: gitTree_Dir map_of_removeEmptyDirsIn)
    next
      case (Some c)
      with u have uc: "uniqueNames c" by (rule uniqueNamesIn_map_of)
      show ?thesis
      proof (cases "qs = []")
        case True
        then show ?thesis using Dir u Some by (auto simp: gitTree_Dir map_of_removeEmptyDirsIn split: option.splits)
      next
        case False
        note IH = Cons.IH[OF uc False]
        show ?thesis
        proof (cases "removeEmptyDirs c")
          case None
          then have "gitTree c = Dir []" by (simp add: gitTree_def)
          with IH False have "(case lookup c qs of None \<Rightarrow> None | Some n \<Rightarrow> removeEmptyDirs n) = None"
            by (cases qs) auto
          then show ?thesis using Dir u Some None by (simp add: gitTree_Dir map_of_removeEmptyDirsIn)
        next
          case r: (Some c')
          then show ?thesis using Dir u Some IH removeEmptyDirs_Some_gitTree[OF r]
            by (simp add: gitTree_Dir map_of_removeEmptyDirsIn)
        qed
      qed
    qed
  next
    case (File x) then show ?thesis by (simp add: gitTree_def)
  next
    case (Symlink x) then show ?thesis by (simp add: gitTree_def)
  qed
qed

lemma rmSync_rmSync_below:
  "p \<noteq> [] \<Longrightarrow> lookup fs p \<noteq> None \<Longrightarrow> y \<noteq> [] \<Longrightarrow>
     rmSync (rmSync fs (p @ y)) p = rmSync fs p \<and> lookup (rmSync fs (p @ y)) p \<noteq> None"
proof (induction p arbitrary: fs)
  case Nil then show ?case by simp
next
  case (Cons s ss)
  show ?case
  proof (cases fs)
    case (Dir es)
    with Cons.prems obtain c where c: "map_of es s = Some c" "lookup c ss \<noteq> None"
      by (auto split: option.splits)
    show ?thesis
    proof (cases "ss = []")
      case True
      then show ?thesis using Dir c Cons.prems(3) by (simp add: delete_update_same update_conv')
    next
      case False
      then show ?thesis using Dir c Cons.IH[OF False c(2) Cons.prems(3)] by (simp add: update_conv')
    qed
  qed (use Cons.prems in auto)
qed

lemma setNode_keeps_prefix:
  "lookup fs p \<noteq> None \<Longrightarrow> y \<noteq> [] \<Longrightarrow> lookup (setNode fs (p @ y) n) p \<noteq> None"
proof (induction p arbitrary: fs)
  case Nil then show ?case by simp
next
  case (Cons s ss)
  then show ?case by (cases fs) (auto simp: update_conv' split: option.splits)
qed

lemma sibling_not_prefix:
  "a \<noteq> b \<Longrightarrow> \<not> startsWith (base @ [a] @ x) (base @ [b])"
  "a \<noteq> b \<Longrightarrow> \<not> startsWith (base @ [b]) (base @ [a] @ x)"
  "\<not> startsWith base (base @ [b])"
  by (auto simp: startsWith_iff)

lemma insideTemp_mkdirSync:
  assumes "insideTemp tmp D q v fs" and "mkdirSync fs (tmp @ y) = Inr fs'" and "y \<noteq> []"
    and "\<not> startsWith (tmp @ y) q"
  shows "insideTemp tmp D q v fs'"
  using assms rmSync_mkdirSync_below[of tmp fs y fs'] lookup_mkdirSync_other[of fs "tmp @ y" fs' q]
    uniqueNames_mkdirSync[of fs "tmp @ y" fs']
  by (auto simp: insideTemp_def)

lemma insideTemp_place:
  assumes "insideTemp tmp D q v fs" and "place fs (tmp @ y) leaf = Inr fs'" and "y \<noteq> []"
    and "\<not> startsWith (tmp @ y) q" and "\<not> isDirectory leaf"
  shows "insideTemp tmp D q v fs'"
proof -
  from assms(5) have "uniqueNames leaf" by (cases leaf) auto
  then show ?thesis
    using assms rmSync_place_below[of tmp fs y leaf fs'] lookup_place_other[of fs "tmp @ y" leaf fs' q]
      uniqueNames_place[of fs leaf "tmp @ y" fs']
    by (auto simp: insideTemp_def)
qed

lemma insideTemp_rmSync:
  assumes "insideTemp tmp D q v fs" and "y \<noteq> []"
    and "\<not> startsWith (tmp @ y) q" and "\<not> startsWith q (tmp @ y)"
  shows "insideTemp tmp D q v (rmSync fs (tmp @ y))"
  using assms rmSync_rmSync_below[of tmp fs y] lookup_rmSync_other[of "tmp @ y" q fs]
    uniqueNames_rmSync[of fs "tmp @ y"]
  by (auto simp: insideTemp_def)

lemma insideTemp_setNode:
  assumes "insideTemp tmp D q v fs" and "y \<noteq> []" and "uniqueNames n"
    and "\<not> startsWith (tmp @ y) q" and "\<not> startsWith q (tmp @ y)"
  shows "insideTemp tmp D q v (setNode fs (tmp @ y) n)"
  using assms rmSync_setNode_below[of tmp fs y n] lookup_setNode_other[of "tmp @ y" q fs n]
    uniqueNames_setNode[of fs n "tmp @ y"] setNode_keeps_prefix[of fs tmp y n]
  by (auto simp: insideTemp_def)

lemma insideTemp_cpSync:
  assumes "insideTemp tmp D q v fs" and "cpSync fs src (tmp @ y) = Inr fs'" and "y \<noteq> []"
    and "\<not> startsWith (tmp @ y) q"
  shows "insideTemp tmp D q v fs'"
  using assms by (auto simp: cpSync_def split: option.splits node.splits intro: insideTemp_place)

lemma butlast_root: "x \<noteq> [] \<Longrightarrow> butlast (tmp @ [v, a] @ x) = tmp @ [v, a] @ butlast x"
  by (simp add: butlast_append)

lemma copyToVault_insideTemp:
  assumes "\<forall>f \<in> set files. ''..'' \<notin> set (splitOn CHR ''/'' (relativePath f))"
    and "getWorkspaceName cwd \<noteq> b" and "q = tmp @ [''vault'', b]"
    and "insideTemp tmp D q v fs"
  shows "insideTemp tmp D q v (snd (copyToVault files tmp cwd fs))"
  using assms(1,4)
proof (induction files arbitrary: fs)
  case Nil then show ?case by simp
next
  case (Cons f files)
  let ?a = "getWorkspaceName cwd"
  let ?x = "filter (\<lambda>s. s \<noteq> [] \<and> s \<noteq> ''.'') (splitOn CHR ''/'' (relativePath f))"
  let ?dest = "joinRel (workspaceRoot tmp cwd) (relativePath f)"
  from Cons.prems have dest: "?dest = tmp @ ([''vault'', ?a] @ ?x)"
    by (simp add: joinRel_noclimb workspaceRoot_def)
  have nq: "\<not> startsWith (tmp @ ([''vault'', ?a] @ ?x)) q"
    using sibling_not_prefix(1)[of ?a b "tmp @ [''vault'']" ?x] assms(2,3) by simp
  have dd: "\<exists>y. dirname ?dest = tmp @ y \<and> y \<noteq> [] \<and> \<not> startsWith (tmp @ y) q"
  proof (cases "?x = []")
    case True
    then have "dirname ?dest = tmp @ [''vault'']" unfolding dest by (simp add: dirname_def butlast_append)
    then show ?thesis using sibling_not_prefix(3)[of "tmp @ [''vault'']" b] assms(3) by auto
  next
    case False
    then have "dirname ?dest = tmp @ ([''vault'', ?a] @ butlast ?x)"
      unfolding dest by (simp add: dirname_def butlast_append)
    then show ?thesis
      using sibling_not_prefix(1)[of ?a b "tmp @ [''vault'']" "butlast ?x"] assms(2,3) by auto
  qed
  then obtain y where y: "dirname ?dest = tmp @ y" "y \<noteq> []" "\<not> startsWith (tmp @ y) q" by blast
  show ?case
  proof (cases "if \<not> existsSync fs (dirname ?dest) then mkdirSync fs (dirname ?dest) else Inr fs")
    case (Inl err) then show ?thesis using Cons.prems by (simp add: Let_def)
  next
    case (Inr fs1)
    have 1: "insideTemp tmp D q v fs1"
    proof (cases "existsSync fs (dirname ?dest)")
      case True with Inr Cons.prems show ?thesis by simp
    next
      case False
      with Inr have "mkdirSync fs (tmp @ y) = Inr fs1" using y(1) by simp
      from insideTemp_mkdirSync[OF Cons.prems(2) this y(2,3)] show ?thesis .
    qed
    show ?thesis
    proof (cases "cpSync fs1 (path f) ?dest")
      case (Inl err) then show ?thesis using Inr 1 by (simp add: Let_def)
    next
      case r: (Inr fs2)
      then have "cpSync fs1 (path f) (tmp @ ([''vault'', ?a] @ ?x)) = Inr fs2" using dest by simp
      from insideTemp_cpSync[OF 1 this _ nq] have "insideTemp tmp D q v fs2" by simp
      from Cons.IH[OF _ this] Cons.prems(1) show ?thesis using Inr r by (simp add: Let_def)
    qed
  qed
qed

lemma walkExcluded_below:
  "p \<in> set (walkExcluded c dir pre allowed) \<Longrightarrow> \<exists>y. y \<noteq> [] \<and> p = dir @ y"
  "p \<in> set (walkExcludedIn es dir pre allowed) \<Longrightarrow> \<exists>y. y \<noteq> [] \<and> p = dir @ y"
proof (induction c dir pre allowed and es dir pre allowed arbitrary: p and p
       rule: walkExcluded_walkExcludedIn.induct)
  case (5 name c es dir pre allowed)
  from "5.prems" consider
      "isDirectory c" "p \<in> set (walkExcluded c (dir @ [name]) (relOf pre name) allowed)"
    | "p = dir @ [name]"
    | "p \<in> set (walkExcludedIn es dir pre allowed)"
    by (auto simp: Let_def split: if_splits)
  then show ?case
  proof cases
    case 1
    from "5.IH"(1)[OF refl refl 1] obtain y where "y \<noteq> []" "p = (dir @ [name]) @ y" by blast
    then have "p = dir @ (name # y)" by simp
    then show ?thesis by blast
  next
    case 2 then show ?thesis by blast
  next
    case 3 with "5.IH"(2) show ?thesis by blast
  qed
qed auto

lemma foldl_rmSync_insideTemp:
  assumes "getWorkspaceName cwd \<noteq> b" and "q = tmp @ [''vault'', b]"
    and "\<forall>p \<in> set ps. \<exists>y. y \<noteq> [] \<and> p = workspaceRoot tmp cwd @ y"
    and "insideTemp tmp D q v fs"
  shows "insideTemp tmp D q v (foldl rmSync fs ps)"
  using assms(3,4)
proof (induction ps arbitrary: fs)
  case Nil then show ?case by simp
next
  case (Cons p ps)
  then obtain y where y: "y \<noteq> []" "p = workspaceRoot tmp cwd @ y" by auto
  let ?a = "getWorkspaceName cwd"
  have p: "p = tmp @ ([''vault'', ?a] @ y)" using y by (simp add: workspaceRoot_def)
  have "insideTemp tmp D q v (rmSync fs (tmp @ ([''vault'', ?a] @ y)))"
    using sibling_not_prefix(1,2)[of ?a b "tmp @ [''vault'']" y] assms(1,2)
    by (intro insideTemp_rmSync[OF Cons.prems(2)]) auto
  with Cons.IH[of "rmSync fs p"] Cons.prems(1) p show ?case by simp
qed

lemma removeExcluded_insideTemp:
  assumes "getWorkspaceName cwd \<noteq> b" and "q = tmp @ [''vault'', b]"
    and "insideTemp tmp D q v fs"
  shows "insideTemp tmp D q v (snd (removeExcludedFromVault tmp cwd allowed fs))"
proof -
  let ?root = "workspaceRoot tmp cwd"
  let ?a = "getWorkspaceName cwd"
  have root: "?root = tmp @ [''vault'', ?a]" by (simp add: workspaceRoot_def)
  have sib: "\<not> startsWith (tmp @ [''vault'', ?a]) q" "\<not> startsWith q (tmp @ [''vault'', ?a])"
    using sibling_not_prefix(1,2)[of ?a b "tmp @ [''vault'']" "[]"] assms(1,2) by auto
  show ?thesis
  proof (cases "existsSync fs ?root")
    case False then show ?thesis using assms(3) by (simp add: removeExcludedFromVault_def)
  next
    case True
    show ?thesis
    proof (cases "lookup fs ?root")
      case None then show ?thesis using assms(3) True by (simp add: removeExcludedFromVault_def)
    next
      case (Some n)
      show ?thesis
      proof (cases n)
        case (Dir es)
        let ?fs1 = "foldl rmSync fs (walkExcludedIn es ?root [] allowed)"
        have 1: "insideTemp tmp D q v ?fs1"
          using walkExcluded_below(2)[of _ es ?root "[]" allowed]
          by (intro foldl_rmSync_insideTemp[OF assms(1,2) _ assms(3)]) blast
        have res: "snd (removeExcludedFromVault tmp cwd allowed fs) =
           (case lookup ?fs1 ?root of
              Some (Dir es1) \<Rightarrow> (case removeEmptyDirs (Dir es1) of None \<Rightarrow> rmSync ?fs1 ?root
                                  | Some t \<Rightarrow> setNode ?fs1 ?root t)
            | _ \<Rightarrow> ?fs1)"
          using True Some Dir
          by (auto simp: removeExcludedFromVault_def Let_def split: option.splits node.splits)
        show ?thesis
        proof (cases "lookup ?fs1 ?root")
          case None then show ?thesis using res 1 by simp
        next
          case s1: (Some n1)
          show ?thesis
          proof (cases n1)
            case d1: (Dir es1)
            from 1 have u: "uniqueNames ?fs1" by (simp add: insideTemp_def)
            from uniqueNames_lookup[OF u s1] d1 have u1: "uniqueNames (Dir es1)" by simp
            show ?thesis
            proof (cases "removeEmptyDirs (Dir es1)")
              case None
              have "insideTemp tmp D q v (rmSync ?fs1 (tmp @ [''vault'', ?a]))"
                using sib by (intro insideTemp_rmSync[OF 1]) auto
              then show ?thesis using res s1 d1 None root by simp
            next
              case (Some t)
              from uniqueNames_removeEmptyDirs(1)[OF u1 Some] have "uniqueNames t" .
              then have "insideTemp tmp D q v (setNode ?fs1 (tmp @ [''vault'', ?a]) t)"
                using sib by (intro insideTemp_setNode[OF 1]) auto
              then show ?thesis using res s1 d1 Some root by simp
            qed
          qed (use res 1 s1 in auto)
        qed
      qed (use assms(3) True Some in \<open>auto simp: removeExcludedFromVault_def\<close>)
    qed
  qed
qed

lemma storeBody_frame:
  assumes nc: "\<forall>f \<in> set files. ''..'' \<notin> set (splitOn CHR ''/'' (relativePath f))"
    and ab: "getWorkspaceName cwd \<noteq> b" and q: "q = tmp @ [''vault'', b]"
    and inv: "insideTemp tmp D q v (disk w3)"
  shows "insideTemp tmp D q v (disk (snd (storeBody e cwd files tmp w3))) \<and>
         (remote (snd (storeBody e cwd files tmp w3)) = remote w3 \<or>
          remote (snd (storeBody e cwd files tmp w3)) =
            Some (gitTree (workTree (snd (storeBody e cwd files tmp w3)) tmp)))"
proof -
  let ?fs1 = "snd (copyToVault files tmp cwd (disk w3))"
  let ?fs2 = "snd (removeExcludedFromVault tmp cwd (map relativePath files) ?fs1)"
  have 1: "insideTemp tmp D q v ?fs1" by (rule copyToVault_insideTemp[OF nc ab q inv])
  have 2: "insideTemp tmp D q v ?fs2" by (rule removeExcluded_insideTemp[OF ab q 1])
  obtain r1 where c: "copyToVault files tmp cwd (disk w3) = (r1, ?fs1)" by (cases "copyToVault files tmp cwd (disk w3)") auto
  obtain r2 where p: "removeExcludedFromVault tmp cwd (map relativePath files) ?fs1 = (r2, ?fs2)"
    by (cases "removeExcludedFromVault tmp cwd (map relativePath files) ?fs1") auto
  show ?thesis
    using inv 1 2 c p
    by (auto simp: storeBody_def Let_def gitAddCommit_def gitPush_def createGitHubRepoAndPush_def workTree_def
             split: sum.splits option.splits prod.splits if_splits bool.splits)
qed

lemma mkdtempSync_unique:
  "mkdtempSync fs t = Inr fs1 \<Longrightarrow> uniqueNames fs \<Longrightarrow> uniqueNames fs1"
  by (auto simp: mkdtempSync_def split: if_splits option.splits node.splits intro: uniqueNames_mkdirSync)

lemma openSession_clone:
  assumes "mkdtempSync (disk w) tmp = Inr fs1" and "remote w = Some t"
  shows "openSession e config tmp w = Inr (w\<lparr>disk := setNode fs1 tmp t, gitHead := t\<rparr>)"
  using assms by (simp add: openSession_def gitClone_def ensureGhGitAuth_def Let_def)

lemma gitTree_fixed_lookup:
  assumes "uniqueNames t" and "gitTree t = t" and "x \<noteq> []"
  shows "(case lookup t x of None \<Rightarrow> None | Some n \<Rightarrow> removeEmptyDirs n) = lookup t x"
  using lookup_gitTree[OF assms(1,3)] assms(2) by simp

lemma store_frame:
  assumes files: "collectFiles e (disk w) cwd = Inr files"
    and nc: "\<forall>f \<in> set files. ''..'' \<notin> set (splitOn CHR ''/'' (relativePath f))"
    and ab: "getWorkspaceName cwd \<noteq> b"
    and rem: "remote w = Some t" and ut: "uniqueNames t" and gt: "gitTree t = t"
    and ud: "uniqueNames (disk w)"
  shows "disk (snd (storeToVault e tmp cwd w)) = disk w \<and>
         (\<exists>t1. remote (snd (storeToVault e tmp cwd w)) = Some t1 \<and>
               lookup t1 [''vault'', b] = lookup t [''vault'', b])"
proof (cases "loadConfig e (disk w) cwd")
  case (Inl err)
  then show ?thesis using files rem by (simp add: storeToVault_def withTempVault_def)
next
  case (Inr cfgo)
  show ?thesis
  proof (cases "\<exists>config. cfgo = Some config \<and> repoUrl config \<noteq> []")
    case False
    then show ?thesis using files rem Inr
      by (cases cfgo) (auto simp: storeToVault_def withTempVault_def)
  next
    case True
    then obtain config where cfg: "cfgo = Some config" "repoUrl config \<noteq> []" by blast
    show ?thesis
    proof (cases "mkdtempSync (disk w) tmp")
      case (Inl err)
      then show ?thesis using files rem Inr cfg by (simp add: storeToVault_def withTempVault_def)
    next
      case m: (Inr fs1)
      let ?w3 = "w\<lparr>disk := setNode fs1 tmp t, gitHead := t\<rparr>"
      let ?q = "tmp @ [''vault'', b]"
      let ?w4 = "snd (storeBody e cwd files tmp ?w3)"
      note t = mkdtempSync_rmSync[OF m]
      have o: "openSession e config tmp w = Inr ?w3" by (rule openSession_clone[OF m rem])
      from t have ex: "lookup fs1 tmp \<noteq> None" by simp
      have inv: "insideTemp tmp (disk w) ?q (lookup t [''vault'', b]) (disk ?w3)"
        unfolding insideTemp_def
        using t ex lookup_setNode_below[OF ex, of t "[]"] lookup_setNode_below[OF ex, of t "[''vault'', b]"]
          rmSync_setNode_below[of tmp fs1 "[]" t] uniqueNames_setNode[OF mkdtempSync_unique[OF m ud] ut]
        by simp
      from storeBody_frame[OF nc ab refl inv, of e]
      have inv4: "insideTemp tmp (disk w) ?q (lookup t [''vault'', b]) (disk ?w4)"
        and r4: "remote ?w4 = Some t \<or> remote ?w4 = Some (gitTree (workTree ?w4 tmp))"
        using rem by auto
      have res: "snd (storeToVault e tmp cwd w) = cleanup tmp ?w4"
        using files Inr cfg m o by (simp add: storeToVault_def withTempVault_def split: prod.splits)
      have d: "disk (snd (storeToVault e tmp cwd w)) = disk w"
        using inv4 by (simp add: res cleanup_def insideTemp_def)
      have r: "remote (snd (storeToVault e tmp cwd w)) = remote ?w4" by (simp add: res cleanup_def)
      from inv4 obtain X where X: "lookup (disk ?w4) tmp = Some X" by (auto simp: insideTemp_def)
      from inv4 have uX: "uniqueNames X" using uniqueNames_lookup[OF _ X] by (simp add: insideTemp_def)
      have lX: "lookup X [''vault'', b] = lookup t [''vault'', b]"
        using inv4 X lookup_append[of "disk ?w4" tmp "[''vault'', b]"] by (simp add: insideTemp_def)
      have "lookup (gitTree X) [''vault'', b] = lookup t [''vault'', b]"
        using lookup_gitTree[OF uX, of "[''vault'', b]"] lX gitTree_fixed_lookup[OF ut gt, of "[''vault'', b]"]
        by simp
      with r4 X have "\<exists>t1. remote ?w4 = Some t1 \<and> lookup t1 [''vault'', b] = lookup t [''vault'', b]"
        by (auto simp: workTree_def)
      with d r show ?thesis by simp
    qed
  qed
qed

lemma update_append_present:
  "map_of es t \<noteq> None \<Longrightarrow> AList.update t v (es @ xs) = AList.update t v es @ xs"
  by (induction es) auto

lemma update_commute:
  "s \<noteq> t \<Longrightarrow> map_of es t \<noteq> None \<Longrightarrow>
     AList.update s a (AList.update t b es) = AList.update t b (AList.update s a es)"
  by (induction es) auto

lemma mkdirSync_setNode_commute:
  "lookup fs tmp \<noteq> None \<Longrightarrow> \<not> startsWith p tmp \<Longrightarrow> \<not> startsWith tmp p \<Longrightarrow>
     mkdirSync (setNode fs tmp n) p =
       (case mkdirSync fs p of Inl err \<Rightarrow> Inl err | Inr fs' \<Rightarrow> Inr (setNode fs' tmp n))"
proof (induction fs p arbitrary: tmp rule: mkdirSync.induct)
  case (3 es s ss)
  from "3.prems"(2) obtain t ts where tmp: "tmp = t # ts" by (cases tmp) auto
  from "3.prems"(1) tmp obtain ct where ct: "map_of es t = Some ct" "lookup ct ts \<noteq> None"
    by (auto split: option.splits)
  show ?case
  proof (cases "t = s")
    case False
    show ?thesis
    proof (cases "map_of es s")
      case None
      then show ?thesis using tmp ct False
        by (simp add: update_conv' map_add_def update_append_present)
    next
      case (Some cs)
      then show ?thesis using tmp ct False update_commute[of s t es]
        by (auto simp: update_conv' split: sum.splits)
    qed
  next
    case True
    with "3.prems" tmp have ap: "\<not> startsWith ss ts" "\<not> startsWith ts ss" by auto
    from ct True have ms: "map_of es s = Some ct" by simp
    from "3.IH"[OF ms ct(2) ap]
    show ?thesis using tmp True ct by (auto simp: update_conv' split: sum.splits)
  qed
qed (auto simp: lookup_leaf split: if_splits)

lemma place_setNode_commute:
  "lookup fs tmp \<noteq> None \<Longrightarrow> \<not> startsWith p tmp \<Longrightarrow> \<not> startsWith tmp p \<Longrightarrow>
     place (setNode fs tmp n) p leaf =
       (case place fs p leaf of Inl err \<Rightarrow> Inl err | Inr fs' \<Rightarrow> Inr (setNode fs' tmp n))"
proof (induction fs p leaf arbitrary: tmp rule: place.induct)
  case (3 es s ss leaf)
  from "3.prems"(2) obtain t ts where tmp: "tmp = t # ts" by (cases tmp) auto
  from "3.prems"(1) tmp obtain ct where ct: "map_of es t = Some ct" "lookup ct ts \<noteq> None"
    by (auto split: option.splits)
  show ?case
  proof (cases "t = s")
    case False
    show ?thesis
    proof (cases "map_of es s")
      case None
      then show ?thesis using tmp ct False
        by (simp add: update_conv' map_add_def update_append_present)
    next
      case (Some cs)
      then show ?thesis using tmp ct False update_commute[of s t es]
        by (auto simp: update_conv' split: sum.splits)
    qed
  next
    case True
    with "3.prems" tmp have ap: "\<not> startsWith ss ts" "\<not> startsWith ts ss" by auto
    from ct True have ms: "map_of es s = Some ct" by simp
    from "3.IH"[OF ms ct(2) ap]
    show ?thesis using tmp True ct by (auto simp: update_conv' split: sum.splits)
  qed
qed (auto simp: lookup_leaf split: if_splits)

lemma writeFileSync_setNode_commute:
  "lookup fs tmp \<noteq> None \<Longrightarrow> \<not> startsWith p tmp \<Longrightarrow> \<not> startsWith tmp p \<Longrightarrow>
     writeFileSync (setNode fs tmp n) p d =
       (case writeFileSync fs p d of Inl err \<Rightarrow> Inl err | Inr fs' \<Rightarrow> Inr (setNode fs' tmp n))"
  by (simp add: writeFileSync_def lookup_setNode_other place_setNode_commute
           split: option.splits node.splits)

lemma existsSync_setNode:
  "\<not> startsWith p tmp \<Longrightarrow> \<not> startsWith tmp p \<Longrightarrow> existsSync (setNode fs tmp n) p = existsSync fs p"
  by (simp add: existsSync_def lookup_setNode_other)

lemma lookup_writeFileSync_other:
  "writeFileSync fs p d = Inr fs' \<Longrightarrow> \<not> startsWith p q \<Longrightarrow> lookup fs' q = lookup fs q"
  by (auto simp: writeFileSync_def split: option.splits node.splits dest: lookup_place_other)

lemma joinStr_Nil_iff: "list_all validName ps \<Longrightarrow> joinStr ps = [] \<longleftrightarrow> ps = []"
  by (induction ps rule: joinStr.induct) (auto simp: validName_def)

lemma joinStr_snoc: "ps \<noteq> [] \<Longrightarrow> joinStr (ps @ [name]) = joinStr ps @ ''/'' @ name"
  by (induction ps rule: joinStr.induct) auto

lemma relOf_joinStr:
  "list_all validName ps \<Longrightarrow> relOf (joinStr ps) name = joinStr (ps @ [name])"
  by (cases "ps = []") (auto simp: relOf_def joinStr_Nil_iff joinStr_snoc)

lemma relPath_Nil: "relPath []"
  unfolding relPath_def by (rule exI[of _ "[]"]) simp

lemma relPath_relOf:
  assumes "relPath pre" and "validName name"
  shows "relPath (relOf pre name)" and "\<exists>z. joinRel cwd (relOf pre name) = cwd @ z @ [name]"
proof -
  from assms(1) obtain ps where ps: "list_all validName ps" "pre = joinStr ps" by (auto simp: relPath_def)
  with assms(2) have v: "list_all validName (ps @ [name])" by simp
  have r: "relOf pre name = joinStr (ps @ [name])" using ps by (simp add: relOf_joinStr)
  show "relPath (relOf pre name)" unfolding relPath_def r using v by blast
  show "\<exists>z. joinRel cwd (relOf pre name) = cwd @ z @ [name]"
    unfolding r joinRel_joinStr[OF v] by auto
qed

lemma apart_extend:
  assumes "\<not> startsWith cwd tmp" and "\<not> startsWith tmp cwd"
  shows "\<not> startsWith (cwd @ z) tmp" and "\<not> startsWith tmp (cwd @ z)"
proof -
  show "\<not> startsWith tmp (cwd @ z)" using assms(2) by (auto simp: startsWith_iff)
  show "\<not> startsWith (cwd @ z) tmp"
  proof
    assume "startsWith (cwd @ z) tmp"
    then obtain r where "cwd @ z = tmp @ r" by (auto simp: startsWith_iff)
    then have "(\<exists>u. cwd = tmp @ u) \<or> (\<exists>u. tmp = cwd @ u)" by (auto simp: append_eq_append_conv2)
    with assms show False by (auto simp: startsWith_iff)
  qed
qed

lemma liftSt_pair [simp]: "liftSt tmp n (c, fs) = (c, setNode fs tmp n)"
  by (simp add: liftSt_def)

lemma liftRes_triple [simp]: "liftRes tmp n (e, c, fs) = (e, c, setNode fs tmp n)"
  by (simp add: liftRes_def)

lemma walkCopyIn_file:
  "\<not> isDirectory c \<Longrightarrow> pathSelected sp (ws @ ''/'' @ relOf pre name) (relOf pre name) name \<Longrightarrow>
   walkCopyIn ((name, c) # es) pre ws cwd sp (count, fs) =
     (case ensureDir fs (dirname (joinRel cwd (relOf pre name))) of
        Inl err \<Rightarrow> (Some err, count, fs)
      | Inr fs1 \<Rightarrow>
          (case leafContent c of
             Inl err \<Rightarrow> (Some err, count, fs1)
           | Inr data \<Rightarrow>
               (case writeFileSync fs1 (joinRel cwd (relOf pre name)) data of
                  Inl err \<Rightarrow> (Some err, count, fs1)
                | Inr fs2 \<Rightarrow> walkCopyIn es pre ws cwd sp (Suc count, fs2))))"
  by (simp add: ensureDir_def Let_def)

lemma ensureDir_setNode:
  "lookup fs tmp \<noteq> None \<Longrightarrow> \<not> startsWith d tmp \<Longrightarrow> \<not> startsWith tmp d \<Longrightarrow>
     ensureDir (setNode fs tmp n) d =
       (case ensureDir fs d of Inl err \<Rightarrow> Inl err | Inr fs' \<Rightarrow> Inr (setNode fs' tmp n))"
  by (simp add: ensureDir_def existsSync_setNode mkdirSync_setNode_commute)

lemma lookup_ensureDir_other:
  "ensureDir fs d = Inr fs' \<Longrightarrow> \<not> startsWith d q \<Longrightarrow> lookup fs' q = lookup fs q"
  by (auto simp: ensureDir_def split: if_splits dest: lookup_mkdirSync_other)

lemma walkCopy_setNode:
  "wfNode c \<Longrightarrow> relPath pre \<Longrightarrow> \<not> startsWith cwd tmp \<Longrightarrow> \<not> startsWith tmp cwd \<Longrightarrow>
     lookup (snd st) tmp \<noteq> None \<Longrightarrow>
     walkCopy c pre ws cwd sp (liftSt tmp n st) = liftRes tmp n (walkCopy c pre ws cwd sp st) \<and>
     lookup (snd (snd (walkCopy c pre ws cwd sp st))) tmp \<noteq> None"
  "wfEntries es \<Longrightarrow> relPath pre \<Longrightarrow> \<not> startsWith cwd tmp \<Longrightarrow> \<not> startsWith tmp cwd \<Longrightarrow>
     lookup (snd st) tmp \<noteq> None \<Longrightarrow>
     walkCopyIn es pre ws cwd sp (liftSt tmp n st) = liftRes tmp n (walkCopyIn es pre ws cwd sp st) \<and>
     lookup (snd (snd (walkCopyIn es pre ws cwd sp st))) tmp \<noteq> None"
proof (induction c pre ws cwd sp st and es pre ws cwd sp st rule: walkCopy_walkCopyIn.induct)
  case (1 es pre ws cwd sp st)
  then show ?case by (cases st) (simp add: liftSt_def)
next
  case (2 c pre ws cwd sp st)
  then show ?case by (cases st) simp
next
  case (3 t pre ws cwd sp st)
  then show ?case by (cases st) simp
next
  case (4 pre ws cwd sp st)
  then show ?case by (cases st) simp
next
  case (5 name c es pre ws cwd sp count fs)
  let ?rel = "relOf pre name"
  let ?vaultRel = "ws @ ''/'' @ ?rel"
  from "5.prems" have wf: "validName name" "wfNode c" "wfEntries es" by auto
  note rp = relPath_relOf[OF "5.prems"(2) wf(1)]
  from "5.prems" have ex: "lookup fs tmp \<noteq> None" by simp
  note ap = "5.prems"(3,4)
  show ?case
  proof (cases "isDirectory c")
    case True
    have IH1: "walkCopy c ?rel ws cwd sp (liftSt tmp n (count, fs)) =
                 liftRes tmp n (walkCopy c ?rel ws cwd sp (count, fs)) \<and>
               lookup (snd (snd (walkCopy c ?rel ws cwd sp (count, fs)))) tmp \<noteq> None"
      using ex by (intro "5.IH"(1)[OF refl refl True wf(2) rp(1) ap]) simp
    obtain e1 c1 fs1 where r1: "walkCopy c ?rel ws cwd sp (count, fs) = (e1, c1, fs1)"
      by (cases "walkCopy c ?rel ws cwd sp (count, fs)") auto
    with IH1 have l1: "walkCopy c ?rel ws cwd sp (count, setNode fs tmp n) = (e1, c1, setNode fs1 tmp n)"
      and ex1: "lookup fs1 tmp \<noteq> None" by auto
    show ?thesis
    proof (cases e1)
      case (Some err)
      then show ?thesis using True r1 l1 ex1 by (simp add: Let_def)
    next
      case None
      have "walkCopyIn es pre ws cwd sp (liftSt tmp n (c1, fs1)) = liftRes tmp n (walkCopyIn es pre ws cwd sp (c1, fs1)) \<and>
            lookup (snd (snd (walkCopyIn es pre ws cwd sp (c1, fs1)))) tmp \<noteq> None"
        using ex1 by (intro "5.IH"(2)[OF refl refl True r1[symmetric] None wf(3) "5.prems"(2) ap]) simp
      then show ?thesis using True r1 l1 None by (simp add: Let_def)
    qed
  next
    case False
    show ?thesis
    proof (cases "pathSelected sp ?vaultRel ?rel name")
      case ns: False
      have "walkCopyIn es pre ws cwd sp (liftSt tmp n (count, fs)) =
              liftRes tmp n (walkCopyIn es pre ws cwd sp (count, fs)) \<and>
            lookup (snd (snd (walkCopyIn es pre ws cwd sp (count, fs)))) tmp \<noteq> None"
        using ex by (intro "5.IH"(3)[OF refl refl False ns wf(3) "5.prems"(2) ap]) simp
      then show ?thesis using False ns by (simp add: Let_def)
    next
      case sel: True
      from rp(2)[of cwd] obtain z where dest: "joinRel cwd ?rel = cwd @ z @ [name]" by blast
      let ?dest = "joinRel cwd ?rel"
      have dd: "dirname ?dest = cwd @ z" by (simp add: dest dirname_def butlast_append)
      note a1 = apart_extend[OF ap, of z]
      have a2: "\<not> startsWith ?dest tmp" "\<not> startsWith tmp ?dest"
        using apart_extend[OF ap, of "z @ [name]"] dest by auto
      note stepR = walkCopyIn_file[OF False sel, of es cwd count fs]
      note stepL = walkCopyIn_file[OF False sel, of es cwd count "setNode fs tmp n"]
      have ed: "ensureDir (setNode fs tmp n) (dirname ?dest) =
                  (case ensureDir fs (dirname ?dest) of Inl err \<Rightarrow> Inl err | Inr fs' \<Rightarrow> Inr (setNode fs' tmp n))"
        unfolding dd by (rule ensureDir_setNode[OF ex a1])
      show ?thesis
      proof (cases "ensureDir fs (dirname ?dest)")
        case (Inl err)
        then show ?thesis unfolding liftSt_pair stepL stepR ed using ex by simp
      next
        case (Inr fsa)
        have exa: "lookup fsa tmp \<noteq> None"
          using lookup_ensureDir_other[OF Inr, of tmp] a1 dd ex by simp
        show ?thesis
        proof (cases "leafContent c")
          case lc: (Inl err)
          then show ?thesis unfolding liftSt_pair stepL stepR ed using Inr exa by simp
        next
          case lc: (Inr data)
          note wc = writeFileSync_setNode_commute[OF exa a2, of n data]
          show ?thesis
          proof (cases "writeFileSync fsa ?dest data")
            case w: (Inl err)
            then show ?thesis unfolding liftSt_pair stepL stepR ed using Inr exa lc wc by simp
          next
            case w: (Inr fsb)
            have exb: "lookup fsb tmp \<noteq> None"
              using lookup_writeFileSync_other[OF w, of tmp] a2 exa by simp
            from sel have nns: "\<not> \<not> pathSelected sp ?vaultRel ?rel name" by simp
            from Inr have Inr': "(if \<not> existsSync fs (dirname ?dest) then mkdirSync fs (dirname ?dest) else Inr fs) = Inr fsa"
              by (simp add: ensureDir_def)
            have "walkCopyIn es pre ws cwd sp (liftSt tmp n (Suc count, fsb)) =
                    liftRes tmp n (walkCopyIn es pre ws cwd sp (Suc count, fsb)) \<and>
                  lookup (snd (snd (walkCopyIn es pre ws cwd sp (Suc count, fsb)))) tmp \<noteq> None"
              using exb by (intro "5.IH"(4)[OF refl refl False nns refl refl Inr' lc w wf(3) "5.prems"(2) ap]) simp
            then show ?thesis unfolding liftSt_pair stepL stepR ed using Inr lc wc w by simp
          qed
        qed
      qed
    qed
  qed
qed

lemma wfNode_Dir: "wfNode (Dir es) = wfEntries es" by simp

lemma copyFromVault_clone:
  assumes ex: "lookup fs1 tmp \<noteq> None" and tmp: "tmp \<noteq> []"
    and ap: "\<not> startsWith cwd tmp" "\<not> startsWith tmp cwd"
    and wf: "\<forall>n. lookup t [''vault'', getWorkspaceName cwd] = Some n \<longrightarrow> wfNode n"
  shows "(case copyFromVault tmp cwd sp (setNode fs1 tmp t) of (r, fs') \<Rightarrow> (r, rmSync fs' tmp)) =
           pullOutcome (lookup t [''vault'', getWorkspaceName cwd]) cwd sp tmp fs1"
proof -
  let ?ws = "getWorkspaceName cwd"
  let ?v = "lookup t [''vault'', ?ws]"
  let ?fs = "setNode fs1 tmp t"
  have root: "lookup ?fs (workspaceRoot tmp cwd) = ?v"
    unfolding workspaceRoot_def by (rule lookup_setNode_below[OF ex])
  have rm: "rmSync ?fs tmp = rmSync fs1 tmp"
    using rmSync_setNode_below[OF tmp ex, of "[]" t] by simp
  show ?thesis
  proof (cases ?v)
    case None
    then show ?thesis using root rm by (simp add: copyFromVault_def existsSync_def pullOutcome_def)
  next
    case (Some n)
    show ?thesis
    proof (cases n)
      case (Dir es)
      with Some wf have wfes: "wfEntries es" by auto
      obtain e c fs' where r: "walkCopyIn es [] ?ws cwd sp (0, fs1) = (e, c, fs')"
        by (cases "walkCopyIn es [] ?ws cwd sp (0, fs1)") auto
      from walkCopy_setNode(2)[OF wfes relPath_Nil ap, of "(0, fs1)" ?ws sp t] ex r
      have l: "walkCopyIn es [] ?ws cwd sp (0, ?fs) = (e, c, setNode fs' tmp t)"
        and ex': "lookup fs' tmp \<noteq> None" by auto
      have rm': "rmSync (setNode fs' tmp t) tmp = rmSync fs' tmp"
        using rmSync_setNode_below[OF tmp ex', of "[]" t] by simp
      show ?thesis using Some Dir root r l rm'
        by (cases e) (auto simp: copyFromVault_def existsSync_def pullOutcome_def Let_def)
    next
      case (File x)
      then show ?thesis using Some root rm by (simp add: copyFromVault_def existsSync_def pullOutcome_def)
    next
      case (Symlink x)
      then show ?thesis using Some root rm
        by (cases x) (simp_all add: copyFromVault_def existsSync_def pullOutcome_def)
    qed
  qed
qed

lemma pull_outcome:
  assumes cfg: "loadConfig e (disk w) cwd = Inr (Some config)" "repoUrl config \<noteq> []"
    and m: "mkdtempSync (disk w) tmp = Inr fs1" and rem: "remote w = Some t"
    and ap: "\<not> startsWith cwd tmp" "\<not> startsWith tmp cwd"
    and wf: "\<forall>n. lookup t [''vault'', getWorkspaceName cwd] = Some n \<longrightarrow> wfNode n"
  shows "(fst (pullFromVault e tmp cwd sp w), disk (snd (pullFromVault e tmp cwd sp w))) =
           pullOutcome (lookup t [''vault'', getWorkspaceName cwd]) cwd sp tmp fs1"
proof -
  note t = mkdtempSync_rmSync[OF m]
  from t have ex: "lookup fs1 tmp \<noteq> None" and tmp: "tmp \<noteq> []" by auto
  have o: "openSession e config tmp w = Inr (w\<lparr>disk := setNode fs1 tmp t, gitHead := t\<rparr>)"
    by (rule openSession_clone[OF m rem])
  from copyFromVault_clone[OF ex tmp ap wf, of sp]
  show ?thesis
    using cfg m o
    by (auto simp: pullFromVault_def withTempVault_def cleanup_def split: prod.splits)
qed

lemma pull_depends_on_workspace:
  assumes d: "disk w' = disk w" and rem: "remote w = Some t" "remote w' = Some t'"
    and same: "lookup t' [''vault'', getWorkspaceName cwd] = lookup t [''vault'', getWorkspaceName cwd]"
    and ap: "\<not> startsWith cwd tmp" "\<not> startsWith tmp cwd"
    and wf: "\<forall>n. lookup t [''vault'', getWorkspaceName cwd] = Some n \<longrightarrow> wfNode n"
  shows "fst (pullFromVault e tmp cwd sp w') = fst (pullFromVault e tmp cwd sp w) \<and>
         disk (snd (pullFromVault e tmp cwd sp w')) = disk (snd (pullFromVault e tmp cwd sp w))"
proof (cases "\<exists>config fs1. loadConfig e (disk w) cwd = Inr (Some config) \<and> repoUrl config \<noteq> [] \<and>
                mkdtempSync (disk w) tmp = Inr fs1")
  case True
  then obtain config fs1 where c: "loadConfig e (disk w) cwd = Inr (Some config)" "repoUrl config \<noteq> []"
    "mkdtempSync (disk w) tmp = Inr fs1" by blast
  from pull_outcome[OF c rem(1) ap wf, of sp] pull_outcome[OF c[folded d] rem(2) ap wf[folded same], of sp] same
  show ?thesis by (metis fst_conv snd_conv)
next
  case False
  then show ?thesis using d
    by (auto simp: pullFromVault_def withTempVault_def split: sum.splits option.splits)
qed

lemma wfNode_lookup: "wfNode fs \<Longrightarrow> lookup fs p = Some n \<Longrightarrow> wfNode n"
proof (induction fs p rule: lookup.induct)
  case (2 es s ss)
  from "2.prems" obtain c where c: "map_of es s = Some c" "lookup c ss = Some n"
    by (auto split: option.splits)
  have "wfEntries es \<Longrightarrow> map_of es s = Some c \<Longrightarrow> wfNode c"
    by (induction es) (auto split: if_splits)
  with "2.prems" c have "wfNode c" by simp
  from "2.IH"[OF c(1) this c(2)] show ?case .
qed auto

subsection \<open>Isolation of workspaces on names without \<open>..\<close>\<close>

text \<open>
  The workspace of a project is named by the basename of its root, or \<open>default\<close> when
  that is empty. \<open>copyToVault\<close>, given relative paths without a \<open>..\<close> segment, creates,
  changes and removes no file outside the workspace directory. A pull reads nothing
  else of the vault than the workspace subtree: its result and the local disk it leaves
  are a function of that subtree. Consequently, for two projects with distinct workspace
  names that share a vault, a store from one whose collected relative paths have no
  \<open>..\<close> segment changes neither the result of the other's pull nor the disk that pull
  leaves behind.
\<close>

lemma isolation_without_climbing:
  "((\<forall>f \<in> set files. ''..'' \<notin> set (splitOn CHR ''/'' (relativePath f))) \<longrightarrow>
      \<not> startsWith q (workspaceRoot vaultPath cwd) \<longrightarrow>
        leafAt (snd (copyToVault files vaultPath cwd fs)) q = leafAt fs q) \<and>
   (loadConfig e (disk w) cwd = Inr (Some config) \<longrightarrow> repoUrl config \<noteq> [] \<longrightarrow>
      mkdtempSync (disk w) tmp = Inr fs1 \<longrightarrow> remote w = Some t \<longrightarrow> wfNode t \<longrightarrow>
      \<not> startsWith cwd tmp \<longrightarrow> \<not> startsWith tmp cwd \<longrightarrow>
        (fst (pullFromVault e tmp cwd sp w), disk (snd (pullFromVault e tmp cwd sp w))) =
          pullOutcome (lookup t [''vault'', getWorkspaceName cwd]) cwd sp tmp fs1) \<and>
   (collectFiles e (disk w) cwdA = Inr filesA \<longrightarrow>
      (\<forall>f \<in> set filesA. ''..'' \<notin> set (splitOn CHR ''/'' (relativePath f))) \<longrightarrow>
      getWorkspaceName cwdA \<noteq> getWorkspaceName cwd \<longrightarrow>
      remote w = Some t \<longrightarrow> wfNode t \<longrightarrow> gitTree t = t \<longrightarrow> wfNode (disk w) \<longrightarrow>
      \<not> startsWith cwd tmp \<longrightarrow> \<not> startsWith tmp cwd \<longrightarrow>
        fst (pullFromVault e tmp cwd sp (snd (storeToVault e tmpA cwdA w))) =
          fst (pullFromVault e tmp cwd sp w) \<and>
        disk (snd (pullFromVault e tmp cwd sp (snd (storeToVault e tmpA cwdA w)))) =
          disk (snd (pullFromVault e tmp cwd sp w)))"
proof (intro conjI impI)
  assume "\<forall>f \<in> set files. ''..'' \<notin> set (splitOn CHR ''/'' (relativePath f))"
    and "\<not> startsWith q (workspaceRoot vaultPath cwd)"
  then show "leafAt (snd (copyToVault files vaultPath cwd fs)) q = leafAt fs q"
    by (rule copyToVault_confined)
next
  assume a: "loadConfig e (disk w) cwd = Inr (Some config)" "repoUrl config \<noteq> []"
    "mkdtempSync (disk w) tmp = Inr fs1" "remote w = Some t" "wfNode t"
    "\<not> startsWith cwd tmp" "\<not> startsWith tmp cwd"
  have wf: "\<forall>n. lookup t [''vault'', getWorkspaceName cwd] = Some n \<longrightarrow> wfNode n"
    using wfNode_lookup[OF a(5)] by blast
  show "(fst (pullFromVault e tmp cwd sp w), disk (snd (pullFromVault e tmp cwd sp w))) =
          pullOutcome (lookup t [''vault'', getWorkspaceName cwd]) cwd sp tmp fs1"
    by (rule pull_outcome[OF a(1,2,3,4,6,7) wf])
next
  assume a: "collectFiles e (disk w) cwdA = Inr filesA"
    "\<forall>f \<in> set filesA. ''..'' \<notin> set (splitOn CHR ''/'' (relativePath f))"
    "getWorkspaceName cwdA \<noteq> getWorkspaceName cwd"
    "remote w = Some t" "wfNode t" "gitTree t = t" "wfNode (disk w)"
    "\<not> startsWith cwd tmp" "\<not> startsWith tmp cwd"
  have wf: "\<forall>n. lookup t [''vault'', getWorkspaceName cwd] = Some n \<longrightarrow> wfNode n"
    using wfNode_lookup[OF a(5)] by blast
  let ?w1 = "snd (storeToVault e tmpA cwdA w)"
  from store_frame[OF a(1,2,3,4) wf_uniqueNames(1)[OF a(5)] a(6) wf_uniqueNames(1)[OF a(7)], of tmpA]
  obtain t1 where s: "disk ?w1 = disk w" "remote ?w1 = Some t1"
    "lookup t1 [''vault'', getWorkspaceName cwd] = lookup t [''vault'', getWorkspaceName cwd]"
    by blast
  from pull_depends_on_workspace[OF s(1) a(4) s(2,3) a(8,9) wf, of e sp]
  show "fst (pullFromVault e tmp cwd sp ?w1) = fst (pullFromVault e tmp cwd sp w)"
    and "disk (snd (pullFromVault e tmp cwd sp ?w1)) = disk (snd (pullFromVault e tmp cwd sp w))"
    by auto
qed

text \<open>The isolation at work: \<open>proj\<close> stores, \<open>other\<close> pulls the one file it had stored.\<close>

lemma isolation_without_climbing_example:
  "collectFiles exampleEnv (disk sharedWorld) [''home'', ''proj''] = Inr exampleFiles \<and>
   getWorkspaceName [''home'', ''proj''] \<noteq> getWorkspaceName [''home'', ''other''] \<and>
   fst (storeToVault exampleEnv [''tmp'', ''agvault-1''] [''home'', ''proj''] sharedWorld) = Inr 1 \<and>
   fst (pullFromVault exampleEnv [''tmp'', ''agvault-2''] [''home'', ''other''] None sharedWorld) = Inr 1 \<and>
   fst (pullFromVault exampleEnv [''tmp'', ''agvault-2''] [''home'', ''other''] None
          (snd (storeToVault exampleEnv [''tmp'', ''agvault-1''] [''home'', ''proj''] sharedWorld))) = Inr 1 \<and>
   disk (snd (pullFromVault exampleEnv [''tmp'', ''agvault-2''] [''home'', ''other''] None
          (snd (storeToVault exampleEnv [''tmp'', ''agvault-1''] [''home'', ''proj''] sharedWorld)))) =
     disk (snd (pullFromVault exampleEnv [''tmp'', ''agvault-2''] [''home'', ''other''] None sharedWorld))"
proof -
  let ?t = "Dir [(''vault'', Dir [(''other'', Dir [(''o.md'', File ''O'')])])]"
  have h1: "collectFiles exampleEnv (disk sharedWorld) [''home'', ''proj''] = Inr exampleFiles" by code_simp
  have h2: "\<forall>f \<in> set exampleFiles. ''..'' \<notin> set (splitOn CHR ''/'' (relativePath f))" by code_simp
  have h3: "getWorkspaceName [''home'', ''proj''] \<noteq> getWorkspaceName [''home'', ''other'']" by code_simp
  have h4: "remote sharedWorld = Some ?t" by code_simp
  have h5: "wfNode ?t" by code_simp
  have h6: "gitTree ?t = ?t" by code_simp
  have h7: "wfNode (disk sharedWorld)" by code_simp
  have h8: "\<not> startsWith [''home'', ''other''] [''tmp'', ''agvault-2'']" by code_simp
  have h9: "\<not> startsWith [''tmp'', ''agvault-2''] [''home'', ''other'']" by code_simp
  have s: "fst (storeToVault exampleEnv [''tmp'', ''agvault-1''] [''home'', ''proj''] sharedWorld) = Inr 1" by code_simp
  have p: "fst (pullFromVault exampleEnv [''tmp'', ''agvault-2''] [''home'', ''other''] None sharedWorld) = Inr 1" by code_simp
  from isolation_without_climbing [where sp = None and tmpA = "[''tmp'', ''agvault-1'']",
      THEN conjunct2, THEN conjunct2, THEN mp, THEN mp, THEN mp, THEN mp, THEN mp,
      THEN mp, THEN mp, THEN mp, THEN mp, OF h1 h2 h3 h4 h5 h6 h7 h8 h9] h1 h3 s p
  show ?thesis by simp
qed

text \<open>
  The fallback name at work: the filesystem root has the empty basename and shares the
  workspace \<open>default\<close> with \<open>/home/default\<close>, whose pull retrieves nothing before the
  root's store and \<open>a.md\<close> after it.
\<close>

lemma default_workspace_shared:
  "basename [] \<noteq> basename [''home'', ''default''] \<and>
   fst (pullFromVault exampleEnv [''tmp'', ''agvault-2''] [''home'', ''default''] None rootWorld) = Inr 0 \<and>
   fst (storeToVault exampleEnv [''tmp'', ''agvault-1''] [] rootWorld) = Inr 1 \<and>
   fst (pullFromVault exampleEnv [''tmp'', ''agvault-2''] [''home'', ''default''] None
          (snd (storeToVault exampleEnv [''tmp'', ''agvault-1''] [] rootWorld))) = Inr 1 \<and>
   lookup (disk (snd (pullFromVault exampleEnv [''tmp'', ''agvault-2''] [''home'', ''default''] None
          (snd (storeToVault exampleEnv [''tmp'', ''agvault-1''] [] rootWorld)))))
     [''home'', ''default'', ''a.md''] = Some (File ''A'')"
  by code_simp

subsection \<open>Claims\<close>

text \<open>
  C7. \<open>loadConfig\<close> returns null exactly when the config file does not exist. When the
  file exists and can be read but the parser rejects its text, \<open>loadConfig\<close> throws the
  error "Invalid JSON in .agvault/config.json: ...", which is not the "not initialized"
  error and not a null result.
\<close>

theorem loadConfig_null_iff_missing:
  "(loadConfig e fs cwd = Inr None \<longleftrightarrow> \<not> existsSync fs (getConfigPath cwd)) \<and>
   (existsSync fs (getConfigPath cwd) \<longrightarrow> readFileSync fs (getConfigPath cwd) = Inr raw \<longrightarrow>
      jsonParse e raw = Inl (Error m) \<longrightarrow>
        loadConfig e fs cwd = Inl (invalidJson m) \<and> invalidJson m \<noteq> notInitialized)"
  by (auto simp: loadConfig_def Let_def invalidJson_def notInitialized_def
           split: sum.splits error.splits json.splits)

theorem loadConfig_null_iff_missing_witness:
  "existsSync brokenDisk (getConfigPath [''p'']) \<and>
   readFileSync brokenDisk (getConfigPath [''p'']) = Inr ''{oops'' \<and>
   jsonParse exampleEnv ''{oops'' = Inl (Error ''Unexpected token'') \<and>
   loadConfig exampleEnv brokenDisk [''p''] = Inl (invalidJson ''Unexpected token'') \<and>
   loadConfig exampleEnv brokenDisk [''p''] \<noteq> Inr None"
  using loadConfig_null_iff_missing [of exampleEnv brokenDisk "[''p'']" "''{oops''" "''Unexpected token''"]
  by (simp add: brokenDisk_def exampleEnv_def getConfigPath_def existsSync_def readFileSync_def)

text \<open>
  C1. When the config loads with a non-empty \<open>repoUrl\<close> and the temp directory has been
  created, then after \<open>withTempVault\<close> nothing exists at the temp directory's path,
  whatever the operation did and whether it returned or threw; and the caller gets the
  operation's own result or error (or the error of the bootstrap, when that failed).
\<close>

theorem withTempVault_cleanup:
  assumes "loadConfig e (disk w) cwd = Inr (Some config)" and "repoUrl config \<noteq> []"
    and "mkdtempSync (disk w) tempDir = Inr fs1"
  shows "lookup (disk (snd (withTempVault e tempDir cwd fn w))) tempDir = None \<and>
         \<not> existsSync (disk (snd (withTempVault e tempDir cwd fn w))) tempDir \<and>
         (\<forall>w3. openSession e config tempDir w = Inr w3 \<longrightarrow>
            fst (withTempVault e tempDir cwd fn w) = fst (fn tempDir w3)) \<and>
         (\<forall>err. openSession e config tempDir w = Inl err \<longrightarrow>
            fst (withTempVault e tempDir cwd fn w) = Inl err)"
proof -
  from mkdtempSync_rmSync[OF assms(3)] have t: "tempDir \<noteq> []" by simp
  show ?thesis
    using assms t
    by (auto simp: withTempVault_def cleanup_def existsSync_def lookup_rmSync_self
             split: sum.splits prod.splits)
qed

text \<open>The guarantee at work: an operation that throws, in the scenario.\<close>

theorem withTempVault_cleanup_witness:
  "loadConfig exampleEnv (disk exampleWorld) [''home'', ''proj''] = Inr (Some exampleConfig) \<and>
   repoUrl exampleConfig \<noteq> [] \<and>
   mkdtempSync (disk exampleWorld) [''tmp'', ''agvault-1''] \<noteq> Inl (Error ''EEXIST'') \<and>
   lookup (disk (snd (withTempVault exampleEnv [''tmp'', ''agvault-1''] [''home'', ''proj'']
                        failingOperation exampleWorld))) [''tmp'', ''agvault-1''] = None \<and>
   fst (withTempVault exampleEnv [''tmp'', ''agvault-1''] [''home'', ''proj'']
          failingOperation exampleWorld) = Inl (Error ''boom'')"
proof -
  have h1: "loadConfig exampleEnv (disk exampleWorld) [''home'', ''proj''] = Inr (Some exampleConfig)"
    by (simp add: exampleWorld_def example_loadConfig)
  have h2: "repoUrl exampleConfig \<noteq> []" by (simp add: exampleConfig_def)
  have h3: "mkdtempSync (disk exampleWorld) [''tmp'', ''agvault-1''] =
     Inr (Dir [(''tmp'', Dir [(''agvault-1'', Dir [])]), (''home'', Dir [(''proj'', exampleProject)])])"
    by (simp add: exampleWorld_def example_mkdtemp)
  from withTempVault_cleanup [OF h1 h2 h3, where fn = failingOperation] example_openSession h1 h2 h3
  show ?thesis by (simp add: failingOperation_def)
qed






text \<open>
  C9 (as amended). \<open>listVaultFiles\<close> returns its paths sorted. They are relative to the
  content root \<open>vault/\<close> of the whole vault, so each carries its workspace name: for
  the project with \<open>README.md\<close> and \<open>node_modules/pkg/readme.md\<close> under the default
  patterns, store collects and stores \<open>README.md\<close> alone, and list then returns
  \<open>proj/README.md\<close> next to the placeholder \<open>.gitkeep\<close> of the vault, and nothing from
  \<open>node_modules\<close>.
\<close>

theorem listVaultFiles_sorted_workspace_paths:
  "(listVaultFiles vaultPath fs = Inr names \<longrightarrow> sorted names) \<and>
   collectFiles exampleEnv exampleDisk [''home'', ''proj''] =
     Inr [\<lparr> path = [''home'', ''proj'', ''README.md''], relativePath = ''README.md'' \<rparr>] \<and>
   fst (storeToVault exampleEnv [''tmp'', ''agvault-1''] [''home'', ''proj''] freshWorld) = Inr 1 \<and>
   fst (listVaultFilesRemote exampleEnv [''tmp'', ''agvault-2''] [''home'', ''proj''] storedWorld) =
     Inr [''.gitkeep'', ''proj/README.md'']"
proof (intro conjI impI)
  assume "listVaultFiles vaultPath fs = Inr names"
  then show "sorted names"
    by (auto simp: listVaultFiles_def Let_def split: if_splits option.splits node.splits)
qed code_simp+

text \<open>Listing the bootstrapped clone.\<close>

theorem listVaultFiles_sorted_workspace_paths_witness:
  "listVaultFiles [''tmp'', ''agvault-1''] (disk bootstrappedWorld) = Inr [''.gitkeep''] \<and>
   sorted [''.gitkeep'']"
proof -
  have h: "listVaultFiles [''tmp'', ''agvault-1''] (disk bootstrappedWorld) = Inr [''.gitkeep'']"
    by code_simp
  from listVaultFiles_sorted_workspace_paths [of "[''tmp'', ''agvault-1'']" "disk bootstrappedWorld" "[''.gitkeep'']"] h
  show ?thesis by simp
qed

text \<open>C9 as stated fails: list after store does not return the bare \<open>README.md\<close>.\<close>

theorem list_after_store_counterexample:
  "fst (listVaultFilesRemote exampleEnv [''tmp'', ''agvault-2''] [''home'', ''proj''] storedWorld) \<noteq>
     Inr [''README.md'']"
  by code_simp

text \<open>
  C8 (as amended). Whenever the config loads, \<open>collectFiles\<close> does not fail, whatever
  the library reports, and returns, for the include patterns in their order and the
  matches of each pattern in the order in which the library reports them (called with
  the exclude list as its ignore list), each absolute path once, at its first
  occurrence, for which \<open>statSync(..).isFile()\<close> holds: the returned paths are distinct,
  they are exactly the reported matches that are regular files or symbolic links
  resolving to a regular file, and each carries the workspace-relative path of its
  absolute path; directories, dangling links and paths whose \<open>statSync\<close> fails are
  skipped. With include \<open>**/*.md\<close> and no exclude over \<open>a.md\<close>, \<open>b/c.md\<close>, \<open>b/c.txt\<close> it
  yields exactly \<open>a.md\<close> and \<open>b/c.md\<close>.
\<close>

theorem collectFiles_characterisation:
  assumes "loadConfig e fs cwd = Inr (Some config)"
  shows "collectFiles e fs cwd =
           Inr (map (vaultFileAt cwd)
                  (firstOccurrences
                     (filter (\<lambda>a. statIsFile fs a = Inr True)
                        (concat (map (\<lambda>pat. map (joinRel cwd) (globSync e pat cwd (excludeGlobs config) fs))
                           (includeGlobs config)))))) \<and>
         (\<forall>files. collectFiles e fs cwd = Inr files \<longrightarrow>
            distinct (map path files) \<and>
            path ` set files =
              {joinRel cwd m | m pat. pat \<in> set (includeGlobs config) \<and>
                 m \<in> set (globSync e pat cwd (excludeGlobs config) fs) \<and>
                 statIsFile fs (joinRel cwd m) = Inr True} \<and>
            (\<forall>f \<in> set files. relativePath f = getWorkspaceRelativePath cwd (path f) \<and>
               (\<exists>n. lookup fs (path f) = Some n \<and> followsToFile n))) \<and>
         collectFiles mdEnv mdDisk [''w''] =
           Inr [\<lparr> path = [''w'', ''a.md''], relativePath = ''a.md'' \<rparr>,
                \<lparr> path = [''w'', ''b'', ''c.md''], relativePath = ''b/c.md'' \<rparr>]"
proof (intro conjI allI impI)
  let ?all = "filter (\<lambda>a. statIsFile fs a = Inr True)
                (concat (map (\<lambda>pat. map (joinRel cwd) (globSync e pat cwd (excludeGlobs config) fs))
                   (includeGlobs config)))"
  show eq: "collectFiles e fs cwd = Inr (map (vaultFileAt cwd) (firstOccurrences ?all))"
    by (rule collectFiles_eq[OF assms])
  fix files assume "collectFiles e fs cwd = Inr files"
  with eq have f: "files = map (vaultFileAt cwd) (firstOccurrences ?all)" by simp
  have "map path files = map (path \<circ> vaultFileAt cwd) (firstOccurrences ?all)"
    unfolding f by (simp only: map_map)
  also have "path \<circ> vaultFileAt cwd = (\<lambda>a. a)"
    by (rule ext) (simp add: vaultFileAt_def)
  finally have p: "map path files = firstOccurrences ?all" by simp
  then show "distinct (map path files)" by (simp only: distinct_firstOccurrences)
  have "path ` set files = set (map path files)" by simp
  also have "\<dots> = set ?all" unfolding p by (rule set_firstOccurrences)
  also have "\<dots> = {joinRel cwd m | m pat. pat \<in> set (includeGlobs config) \<and>
                 m \<in> set (globSync e pat cwd (excludeGlobs config) fs) \<and>
                 statIsFile fs (joinRel cwd m) = Inr True}"
    by auto
  finally show "path ` set files =
              {joinRel cwd m | m pat. pat \<in> set (includeGlobs config) \<and>
                 m \<in> set (globSync e pat cwd (excludeGlobs config) fs) \<and>
                 statIsFile fs (joinRel cwd m) = Inr True}" .
  show "\<forall>f \<in> set files. relativePath f = getWorkspaceRelativePath cwd (path f) \<and>
               (\<exists>n. lookup fs (path f) = Some n \<and> followsToFile n)"
  proof
    fix x assume "x \<in> set files"
    then obtain a where a: "x = vaultFileAt cwd a" "a \<in> set ?all"
      unfolding f by (auto simp: set_firstOccurrences)
    from a(2) have "statIsFile fs a = Inr True" by simp
    from statIsFile_True[OF this] a(1)
    show "relativePath x = getWorkspaceRelativePath cwd (path x) \<and>
               (\<exists>n. lookup fs (path x) = Some n \<and> followsToFile n)"
      by (simp add: vaultFileAt_def)
  qed
next
  show "collectFiles mdEnv mdDisk [''w''] =
           Inr [\<lparr> path = [''w'', ''a.md''], relativePath = ''a.md'' \<rparr>,
                \<lparr> path = [''w'', ''b'', ''c.md''], relativePath = ''b/c.md'' \<rparr>]"
    by code_simp
qed

text \<open>The general equation at a project with two overlapping include patterns: the
  result follows the include list, not the alphabet, and \<open>b/c.md\<close> appears once.\<close>

theorem collectFiles_characterisation_witness:
  "loadConfig orderEnv orderDisk [''w''] \<noteq> Inr None \<and>
   globSync orderEnv ''b/**'' [''w''] [] orderDisk = [''b/c.md'', ''b/c.txt''] \<and>
   globSync orderEnv ''**/*.md'' [''w''] [] orderDisk = [''a.md'', ''b/c.md''] \<and>
   collectFiles orderEnv orderDisk [''w''] =
     Inr (map (vaultFileAt [''w'']) [[''w'', ''b'', ''c.md''], [''w'', ''b'', ''c.txt''], [''w'', ''a.md'']])"
proof -
  let ?cfg = "\<lparr> repoUrl = ''r'', includeGlobs = [''b/**'', ''**/*.md''], excludeGlobs = [], branch = ''main'' \<rparr>"
  have h1: "loadConfig orderEnv orderDisk [''w''] = Inr (Some ?cfg)" by code_simp
  have g1: "globSync orderEnv ''b/**'' [''w''] [] orderDisk = [''b/c.md'', ''b/c.txt'']" by code_simp
  have g2: "globSync orderEnv ''**/*.md'' [''w''] [] orderDisk = [''a.md'', ''b/c.md'']" by code_simp
  have h4: "firstOccurrences
              (filter (\<lambda>a. statIsFile orderDisk a = Inr True)
                 (concat (map (\<lambda>pat. map (joinRel [''w'']) (globSync orderEnv pat [''w''] (excludeGlobs ?cfg) orderDisk))
                    (includeGlobs ?cfg)))) =
            [[''w'', ''b'', ''c.md''], [''w'', ''b'', ''c.txt''], [''w'', ''a.md'']]"
    by code_simp
  from collectFiles_characterisation [OF h1] have
    "collectFiles orderEnv orderDisk [''w''] =
           Inr (map (vaultFileAt [''w''])
                  (firstOccurrences
              (filter (\<lambda>a. statIsFile orderDisk a = Inr True)
                 (concat (map (\<lambda>pat. map (joinRel [''w'']) (globSync orderEnv pat [''w''] (excludeGlobs ?cfg) orderDisk))
                    (includeGlobs ?cfg))))))" by (rule conjunct1)
  then have "collectFiles orderEnv orderDisk [''w''] =
     Inr (map (vaultFileAt [''w'']) [[''w'', ''b'', ''c.md''], [''w'', ''b'', ''c.txt''], [''w'', ''a.md'']])"
    by (simp only: h4)
  with h1 g1 g2 show ?thesis by simp
qed

text \<open>
  C8 as stated fails: a symbolic link to a regular file is collected, not skipped
  (\<open>statSync\<close> follows links); only the dangling link beside it is left out.
\<close>

theorem symlink_collected_counterexample:
  "lookup linkDisk [''w'', ''link.md''] = Some (Symlink (ToFile ''A'')) \<and>
   collectFiles mdEnv linkDisk [''w''] =
     Inr [\<lparr> path = [''w'', ''link.md''], relativePath = ''link.md'' \<rparr>]"
  by code_simp

text \<open>
  C3, at a failing input. \<open>getWorkspaceRelativePath\<close> turns every backslash of the
  relative path into a slash. The collected file named \<open>\x.md\<close> gets the relative path
  \<open>/x.md\<close>; \<open>copyToVault\<close> copies it to \<open>x.md\<close> in the workspace, and the walk of
  \<open>removeExcludedFromVault\<close> then finds \<open>x.md\<close>, which is not in the allowed set, and
  deletes it: after the copy-in phase the workspace does not contain the collected file.
\<close>

theorem copyIn_loses_backslash_file:
  "collectFiles exampleEnv backslashDisk [''home'', ''proj''] =
     Inr [\<lparr> path = [''home'', ''proj'', backslashName], relativePath = ''/x.md'' \<rparr>] \<and>
   (case openSession exampleEnv exampleConfig [''tmp'', ''agvault-1''] backslashWorld of
      Inl err \<Rightarrow> False
    | Inr w3 \<Rightarrow>
        (case copyToVault [\<lparr> path = [''home'', ''proj'', backslashName], relativePath = ''/x.md'' \<rparr>]
                [''tmp'', ''agvault-1''] [''home'', ''proj''] (disk w3) of
           (r1, fs1) \<Rightarrow>
             (case removeExcludedFromVault [''tmp'', ''agvault-1''] [''home'', ''proj''] [''/x.md''] fs1 of
                (r2, fs2) \<Rightarrow>
                  r1 = None \<and> r2 = None \<and>
                  lookup fs1 [''tmp'', ''agvault-1'', ''vault'', ''proj'', ''x.md''] = Some (File ''notes'') \<and>
                  lookup fs2 [''tmp'', ''agvault-1'', ''vault'', ''proj'', ''x.md''] = None \<and>
                  lookup fs2 (workspaceRoot [''tmp'', ''agvault-1''] [''home'', ''proj'']) = None)))"
  by code_simp

text \<open>
  C5, at the same failing input: the store reports one file, but the vault does not hold
  it, and a pull into the project from which the note was removed writes nothing.
\<close>

theorem roundtrip_loses_backslash_file:
  "fst (storeToVault exampleEnv [''tmp'', ''agvault-1''] [''home'', ''proj''] backslashWorld) = Inr 1 \<and>
   lookup (disk backslashWorld) [''home'', ''proj'', backslashName] = Some (File ''notes'') \<and>
   lookup (disk backslashEmptied) [''home'', ''proj'', backslashName] = None \<and>
   fst (pullFromVault exampleEnv [''tmp'', ''agvault-2''] [''home'', ''proj''] None backslashEmptied) = Inr 0 \<and>
   lookup (disk (snd (pullFromVault exampleEnv [''tmp'', ''agvault-2''] [''home'', ''proj''] None backslashEmptied)))
     [''home'', ''proj'', backslashName] = None"
  by code_simp

text \<open>
  C4, at a failing input of the same defect: the relative path of the collected file
  climbs out of the temp directory, so the first store writes \<open>new.md\<close> into the project
  root and commits nothing; the second store, with no change made by anyone else,
  collects two files, commits and pushes.
\<close>

theorem second_store_commits_after_climbing_name:
  "fst (storeToVault exampleEnv [''tmp'', ''agvault-1''] [''home'', ''proj''] climbingWorld) = Inr 1 \<and>
   remote climbingStored = remote climbingWorld \<and>
   lookup (disk climbingWorld) [''home'', ''proj'', ''new.md''] = None \<and>
   lookup (disk climbingStored) [''home'', ''proj'', ''new.md''] = Some (File ''notes'') \<and>
   fst (storeToVault exampleEnv [''tmp'', ''agvault-2''] [''home'', ''proj''] climbingStored) = Inr 2 \<and>
   remote (snd (storeToVault exampleEnv [''tmp'', ''agvault-2''] [''home'', ''proj''] climbingStored)) =
     Some (Dir [(''vault'', Dir [(''.gitkeep'', File []), (''proj'', Dir [(''new.md'', File ''notes'')])])])"
  by code_simp

text \<open>
  C2, at a failing input of the same defect. The projects \<open>/home/proj\<close> and
  \<open>/home/other\<close> have distinct basenames and share a vault that holds \<open>o.md\<close> of
  \<open>other\<close>. The one note of \<open>proj\<close> is named \<open>..\other\o.md\<close>;
  \<open>getWorkspaceRelativePath\<close> turns its relative path into \<open>../other/o.md\<close>, and
  \<open>copyToVault\<close> joins that below the workspace of \<open>proj\<close>: it writes
  \<open>vault/other/o.md\<close>, outside its own workspace. Before the store of \<open>proj\<close> the pull
  of \<open>other\<close> retrieves its own \<open>o.md\<close>; after it, the content of the note of \<open>proj\<close>.
\<close>

theorem store_overwrites_other_workspace:
  "basename [''home'', ''proj''] \<noteq> basename [''home'', ''other''] \<and>
   collectFiles exampleEnv intrudingDisk [''home'', ''proj''] =
     Inr [\<lparr> path = [''home'', ''proj'', intrudingName], relativePath = ''../other/o.md'' \<rparr>] \<and>
   (case openSession exampleEnv exampleConfig [''tmp'', ''agvault-1''] intrudingWorld of
      Inl err \<Rightarrow> False
    | Inr w3 \<Rightarrow>
        lookup (disk w3) [''tmp'', ''agvault-1'', ''vault'', ''other'', ''o.md''] = Some (File ''O'') \<and>
        (case copyToVault [\<lparr> path = [''home'', ''proj'', intrudingName], relativePath = ''../other/o.md'' \<rparr>]
                [''tmp'', ''agvault-1''] [''home'', ''proj''] (disk w3) of
           (r1, fs1) \<Rightarrow>
             r1 = None \<and>
             lookup fs1 [''tmp'', ''agvault-1'', ''vault'', ''other'', ''o.md''] = Some (File ''EVIL''))) \<and>
   fst (pullFromVault exampleEnv [''tmp'', ''agvault-2''] [''home'', ''other''] None intrudingWorld) = Inr 1 \<and>
   lookup (disk (snd (pullFromVault exampleEnv [''tmp'', ''agvault-2''] [''home'', ''other''] None intrudingWorld)))
     [''home'', ''other'', ''o.md''] = Some (File ''O'') \<and>
   fst (storeToVault exampleEnv [''tmp'', ''agvault-1''] [''home'', ''proj''] intrudingWorld) = Inr 1 \<and>
   fst (pullFromVault exampleEnv [''tmp'', ''agvault-2''] [''home'', ''other''] None intrudingStored) = Inr 1 \<and>
   lookup (disk (snd (pullFromVault exampleEnv [''tmp'', ''agvault-2''] [''home'', ''other''] None intrudingStored)))
     [''home'', ''other'', ''o.md''] = Some (File ''EVIL'')"
  by code_simp

end
